theory Spec2Isabelle
  imports Main
begin

section \<open>Values exchanged with the remote services\<close>

text \<open>
  \<^verbatim>\<open>app.py\<close> talks to two REST services and reads their answers with
  \<^verbatim>\<open>response.json()\<close>. The value that call returns is a Python object built from
  \<^verbatim>\<open>None\<close>, booleans, integers, strings, lists and dicts. A dict is kept as an
  association list in insertion order (its keys are distinct in Python; lookups read
  the association list with \<^const>\<open>map_of\<close>). Floating-point numbers are outside this
  model: every JSON number is an integer.
\<close>

datatype json =
    JNull
  | JBool bool
  | JInt int
  | JStr string
  | JList "json list"
  | JObj "(string \<times> json) list"

text \<open>The exceptions (all subclasses of Python's \<^verbatim>\<open>Exception\<close>) that the code can meet.\<close>

datatype exn =
    RequestException
  | HTTPError nat
  | JSONDecodeError
  | KeyError string
  | TypeError
  | AttributeError
  | ValueError
  | OSError

definition bind_exn :: "exn + 'a \<Rightarrow> ('a \<Rightarrow> exn + 'b) \<Rightarrow> exn + 'b" where
  "bind_exn m f = (case m of Inl e \<Rightarrow> Inl e | Inr x \<Rightarrow> f x)"

subsection \<open>Python operations on these values\<close>

text \<open>\<^verbatim>\<open>bool(v)\<close>, as \<^verbatim>\<open>if v:\<close> evaluates it.\<close>

fun py_truthy :: "json \<Rightarrow> bool" where
  "py_truthy JNull = False"
| "py_truthy (JBool b) = b"
| "py_truthy (JInt i) = (i \<noteq> 0)"
| "py_truthy (JStr s) = (s \<noteq> [])"
| "py_truthy (JList xs) = (xs \<noteq> [])"
| "py_truthy (JObj kvs) = (kvs \<noteq> [])"

text \<open>\<^verbatim>\<open>v[k]\<close> with a string key: only a dict accepts it, and a missing key raises.\<close>

fun py_getitem :: "json \<Rightarrow> string \<Rightarrow> exn + json" where
  "py_getitem (JObj kvs) k = (case map_of kvs k of None \<Rightarrow> Inl (KeyError k) | Some v \<Rightarrow> Inr v)"
| "py_getitem _ k = Inl TypeError"

text \<open>\<^verbatim>\<open>v.get(k, d)\<close>: only a dict has the method.\<close>

fun py_get :: "json \<Rightarrow> string \<Rightarrow> json \<Rightarrow> exn + json" where
  "py_get (JObj kvs) k d = (case map_of kvs k of None \<Rightarrow> Inr d | Some v \<Rightarrow> Inr v)"
| "py_get _ k d = Inl AttributeError"

text \<open>
  \<^verbatim>\<open>for x in v\<close>: a list gives its elements, a dict its keys, a string its
  characters; the other values are not iterable.
\<close>

fun py_iter :: "json \<Rightarrow> exn + json list" where
  "py_iter (JList xs) = Inr xs"
| "py_iter (JObj kvs) = Inr (map (\<lambda>kv. JStr (fst kv)) kvs)"
| "py_iter (JStr s) = Inr (map (\<lambda>c. JStr [c]) s)"
| "py_iter _ = Inl TypeError"

text \<open>\<^verbatim>\<open>s.endswith(suffix)\<close> on strings.\<close>

definition endswith :: "string \<Rightarrow> string \<Rightarrow> bool" where
  "endswith s suf = (length suf \<le> length s \<and> drop (length s - length suf) s = suf)"

text \<open>Numbers for comparison: \<^verbatim>\<open>True\<close> and \<^verbatim>\<open>False\<close> are the integers 1 and 0.\<close>

fun py_num :: "json \<Rightarrow> int option" where
  "py_num (JInt i) = Some i"
| "py_num (JBool b) = Some (if b then 1 else 0)"
| "py_num _ = None"

text \<open>\<^verbatim>\<open>a == b\<close>: never raises; dicts are equal when they hold the same items.\<close>

fun py_eq :: "json \<Rightarrow> json \<Rightarrow> bool"
  and py_eq_list :: "json list \<Rightarrow> json list \<Rightarrow> bool"
  and py_eq_items :: "(string \<times> json) list \<Rightarrow> (string \<times> json) list \<Rightarrow> bool" where
  "py_eq JNull b = (b = JNull)"
| "py_eq (JBool x) b = (py_num b = Some (if x then 1 else 0))"
| "py_eq (JInt i) b = (py_num b = Some i)"
| "py_eq (JStr s) b = (b = JStr s)"
| "py_eq (JList xs) b = (case b of JList ys \<Rightarrow> py_eq_list xs ys | _ \<Rightarrow> False)"
| "py_eq (JObj kvs) b =
     (case b of JObj kws \<Rightarrow> length kvs = length kws \<and> py_eq_items kvs kws | _ \<Rightarrow> False)"
| "py_eq_list [] ys = (ys = [])"
| "py_eq_list (x # xs) ys =
     (case ys of [] \<Rightarrow> False | y # ys' \<Rightarrow> py_eq x y \<and> py_eq_list xs ys')"
| "py_eq_items [] kws = True"
| "py_eq_items (kv # kvs) kws =
     (case map_of kws (fst kv) of
        None \<Rightarrow> False
      | Some v' \<Rightarrow> py_eq (snd kv) v' \<and> py_eq_items kvs kws)"

text \<open>Strings are ordered by code point, lexicographically.\<close>

fun str_gt :: "string \<Rightarrow> string \<Rightarrow> bool" where
  "str_gt [] t = False"
| "str_gt (a # s) [] = True"
| "str_gt (a # s) (b # t) = (if a = b then str_gt s t else (of_char b :: nat) < of_char a)"

text \<open>
  \<^verbatim>\<open>a > b\<close>: numbers with numbers, strings with strings, lists with lists (at the
  first position where they differ, else by length); every other pair raises
  \<^verbatim>\<open>TypeError\<close>.
\<close>

fun py_gt :: "json \<Rightarrow> json \<Rightarrow> exn + bool"
  and py_gt_list :: "json list \<Rightarrow> json list \<Rightarrow> exn + bool" where
  "py_gt JNull b = Inl TypeError"
| "py_gt (JBool x) b =
     (case py_num b of None \<Rightarrow> Inl TypeError | Some j \<Rightarrow> Inr (j < (if x then 1 else 0)))"
| "py_gt (JInt i) b = (case py_num b of None \<Rightarrow> Inl TypeError | Some j \<Rightarrow> Inr (j < i))"
| "py_gt (JStr s) b = (case b of JStr t \<Rightarrow> Inr (str_gt s t) | _ \<Rightarrow> Inl TypeError)"
| "py_gt (JList xs) b = (case b of JList ys \<Rightarrow> py_gt_list xs ys | _ \<Rightarrow> Inl TypeError)"
| "py_gt (JObj kvs) b = Inl TypeError"
| "py_gt_list [] ys = Inr False"
| "py_gt_list (x # xs) ys =
     (case ys of
        [] \<Rightarrow> Inr True
      | y # ys' \<Rightarrow> if py_eq x y then py_gt_list xs ys' else py_gt x y)"

subsection \<open>Paths\<close>

text \<open>\<^verbatim>\<open>os.path.basename\<close> (POSIX): what follows the last slash.\<close>

definition basename :: "string \<Rightarrow> string" where
  "basename p = rev (takeWhile (\<lambda>c. c \<noteq> CHR ''/'') (rev p))"

text \<open>\<^verbatim>\<open>os.path.join\<close> (POSIX) of two components.\<close>

definition path_join :: "string \<Rightarrow> string \<Rightarrow> string" where
  "path_join a b =
     (if b \<noteq> [] \<and> hd b = CHR ''/'' then b
      else if a = [] \<or> last a = CHR ''/'' then a @ b
      else a @ ''/'' @ b)"

section \<open>The world the program runs in\<close>

text \<open>An HTTP answer read with \<^verbatim>\<open>response.json()\<close>; no body means the body is not JSON.\<close>

record response =
  status_code :: nat
  json_body :: "json option"

text \<open>
  An HTTP answer read as a stream (\<^verbatim>\<open>iter_content\<close>): the chunks that arrive, and
  whether the stream then breaks.
\<close>

record stream_response =
  stream_status :: nat
  chunks :: "string list"
  stream_fails :: bool

text \<open>\<^verbatim>\<open>response.raise_for_status()\<close>: raises for the 4xx and 5xx codes.\<close>

definition raise_for_status :: "nat \<Rightarrow> exn + unit" where
  "raise_for_status code = (if 400 \<le> code \<and> code < 600 then Inl (HTTPError code) else Inr ())"

definition response_json :: "response \<Rightarrow> exn + json" where
  "response_json r = (case json_body r of None \<Rightarrow> Inl JSONDecodeError | Some v \<Rightarrow> Inr v)"

text \<open>One record of the ledger \<^verbatim>\<open>successful_uploads\<close> (lines 142 to 147); the key
  \<^verbatim>\<open>file\<close> of the source is the field \<open>file_name\<close>.\<close>

record upload_info =
  file_name :: string
  folder_id :: json
  download_page :: json
  guest_token :: json

text \<open>
  What a local file holds: the bytes written by the downloader, or the text
  \<^verbatim>\<open>json.dump(v, f, indent=2)\<close> writes for a ledger \<open>v\<close>.
\<close>

datatype file_content = Raw string | Json_dump "upload_info list"

text \<open>Every \<^verbatim>\<open>print\<close> of the program, with the values it formats.\<close>

datatype message =
    Listing_status nat
  | Listing_error exn
  | Downloaded string
  | Download_error string exn
  | Using_server json
  | No_best_server
  | Server_error exn
  | Uploading_to json
  | Uploaded string
  | Download_page json
  | Folder_id json
  | Guest_token json
  | Bad_response json
  | Upload_error string exn
  | Removed string
  | Remove_error exn
  | Starting
  | No_files
  | Found nat
  | Processing nat nat string
  | Upload_failed string
  | Waiting nat
  | Process_error string exn
  | Completed
  | Uploaded_count nat
  | Info_file
  | Server_active
  | Visit_uploads
  | Press_ctrl_c

text \<open>What the program does to the outside, in order.\<close>

datatype event =
    Print message
  | Get_listing string
  | Get_download string string
  | Get_servers
  | Post_upload json string
  | Sleep nat

record world =
  files :: "string \<rightharpoonup> file_content"
  successful_uploads :: "upload_info list"
  trace :: "event list"

definition emit :: "event \<Rightarrow> world \<Rightarrow> world" where
  "emit e w = w\<lparr>trace := trace w @ [e]\<rparr>"

definition print :: "message \<Rightarrow> world \<Rightarrow> world" where
  "print m w = emit (Print m) w"

text \<open>
  What the outside answers while one file is processed: whether each file-system call
  is refused, and what each HTTP request returns (\<open>None\<close> when \<^verbatim>\<open>requests\<close> raises).
  Writing to a file that was opened is taken to succeed.
\<close>

record file_env =
  makedirs_fails :: bool
  download_resp :: "stream_response option"
  open_wb_fails :: bool
  servers_resp :: "response option"
  open_rb_fails :: bool
  upload_resp :: "response option"
  open_ledger_fails :: bool
  remove_fails :: bool

record env =
  listing_resp :: "response option"
  per_file :: "nat \<Rightarrow> file_env"

definition SOURCE_SPACE :: string where
  "SOURCE_SPACE = ''littletest/Why''"

definition TEMP_DOWNLOAD_DIR :: string where
  "TEMP_DOWNLOAD_DIR = ''./temp_downloads''"

definition TIMEOUT_BETWEEN_UPLOADS :: nat where
  "TIMEOUT_BETWEEN_UPLOADS = 5"

definition init_world :: world where
  "init_world = \<lparr>files = Map.empty, successful_uploads = [], trace = []\<rparr>"

section \<open>Remote Lister: \<^verbatim>\<open>get_file_list\<close>\<close>

text \<open>
  The list comprehension of line 35: for each sibling, in order, the filter
  \<^verbatim>\<open>not file['rfilename'].endswith('.gitattributes')\<close> is evaluated, then the element
  \<^verbatim>\<open>file['rfilename']\<close>. The first exception ends it: a sibling that is no dict
  (\<^verbatim>\<open>TypeError\<close>), has no such key (\<^verbatim>\<open>KeyError\<close>), or whose name is no string
  and so has no \<^verbatim>\<open>endswith\<close> (\<^verbatim>\<open>AttributeError\<close>).
\<close>

fun sibling_names :: "json list \<Rightarrow> exn + string list" where
  "sibling_names [] = Inr []"
| "sibling_names (f # fs) =
     bind_exn (py_getitem f ''rfilename'') (\<lambda>v.
       case v of
         JStr s \<Rightarrow>
           bind_exn (sibling_names fs) (\<lambda>rest.
             Inr (if endswith s ''.gitattributes'' then rest else s # rest))
       | _ \<Rightarrow> Inl AttributeError)"

text \<open>Lines 33 to 35, run when the status is 200.\<close>

definition parse_listing :: "response \<Rightarrow> exn + string list" where
  "parse_listing r =
     bind_exn (response_json r) (\<lambda>data.
     bind_exn (py_getitem data ''siblings'') (\<lambda>siblings.
     bind_exn (py_iter siblings) sibling_names))"

definition get_file_list :: "string \<Rightarrow> response option \<Rightarrow> world \<Rightarrow> string list \<times> world" where
  "get_file_list space_name resp w =
     (let w1 = emit (Get_listing (''https://huggingface.co/api/spaces/'' @ space_name)) w in
      case resp of
        None \<Rightarrow> ([], print (Listing_error RequestException) w1)
      | Some r \<Rightarrow>
          if status_code r = 200 then
            (case parse_listing r of
               Inr names \<Rightarrow> (names, w1)
             | Inl e \<Rightarrow> ([], print (Listing_error e) w1))
          else ([], print (Listing_status (status_code r)) w1))"

section \<open>Downloader: \<^verbatim>\<open>download_file\<close>\<close>

text \<open>
  \<^verbatim>\<open>open(local_filename, 'wb')\<close>: refused by the system for a name that denotes a
  directory (an empty base name, \<^verbatim>\<open>.\<close> or \<^verbatim>\<open>..\<close>), or when the outside says so.
\<close>

definition open_wb :: "file_env \<Rightarrow> string \<Rightarrow> exn + unit" where
  "open_wb fe path =
     (if basename path \<in> {[], ''.'', ''..''} \<or> open_wb_fails fe then Inl OSError else Inr ())"

text \<open>
  Lines 59 to 70, the body of the \<^verbatim>\<open>try\<close>. The file exists from the moment it is
  opened, with what was written before the stream broke.
\<close>

definition download_try :: "file_env \<Rightarrow> string \<Rightarrow> string \<Rightarrow> world \<Rightarrow> (exn + string) \<times> world" where
  "download_try fe space_name file_path w =
     (let w1 = emit (Get_download space_name file_path) w in
      case download_resp fe of
        None \<Rightarrow> (Inl RequestException, w1)
      | Some r \<Rightarrow>
          (case raise_for_status (stream_status r) of
             Inl e \<Rightarrow> (Inl e, w1)
           | Inr _ \<Rightarrow>
               (let local_filename = path_join TEMP_DOWNLOAD_DIR (basename file_path) in
                case open_wb fe local_filename of
                  Inl e \<Rightarrow> (Inl e, w1)
                | Inr _ \<Rightarrow>
                    (let w2 = w1\<lparr>files := (files w1)(local_filename \<mapsto> Raw (concat (chunks r)))\<rparr> in
                     if stream_fails r then (Inl RequestException, w2)
                     else (Inr local_filename, print (Downloaded local_filename) w2)))))"

text \<open>
  \<^verbatim>\<open>os.makedirs\<close> stands before the \<^verbatim>\<open>try\<close> (line 52): its exception leaves the
  function (\<open>Inl\<close>). Every exception of the body gives \<^verbatim>\<open>None\<close>.
\<close>

definition download_file ::
    "file_env \<Rightarrow> string \<Rightarrow> string \<Rightarrow> world \<Rightarrow> (exn + string option) \<times> world" where
  "download_file fe space_name file_path w =
     (if makedirs_fails fe then (Inl OSError, w)
      else
        (case download_try fe space_name file_path w of
           (Inr local_filename, w1) \<Rightarrow> (Inr (Some local_filename), w1)
         | (Inl e, w1) \<Rightarrow> (Inr None, print (Download_error file_path e) w1)))"

section \<open>Server Selector: \<^verbatim>\<open>get_best_server\<close>\<close>

text \<open>
  \<^verbatim>\<open>max(servers, key=lambda x: x.get('score', 0))\<close> as CPython runs it: the key of
  every item is computed in order, and an item replaces the best so far only when its
  key is greater. The first item is never compared.
\<close>

definition score_key :: "json \<Rightarrow> exn + json" where
  "score_key x = py_get x ''score'' (JInt 0)"

fun max_loop :: "json \<Rightarrow> json \<Rightarrow> json list \<Rightarrow> exn + json" where
  "max_loop maxitem maxval [] = Inr maxitem"
| "max_loop maxitem maxval (item # rest) =
     bind_exn (score_key item) (\<lambda>val.
     bind_exn (py_gt val maxval) (\<lambda>greater.
       if greater then max_loop item val rest else max_loop maxitem maxval rest))"

fun py_max :: "json list \<Rightarrow> exn + json" where
  "py_max [] = Inl ValueError"
| "py_max (item # rest) = bind_exn (score_key item) (\<lambda>val. max_loop item val rest)"

text \<open>
  Lines 82 to 94, the body of the \<^verbatim>\<open>try\<close>: \<open>Some name\<close> when line 94 returns the
  name, \<open>None\<close> when control falls through to line 96.
\<close>

definition best_server_try :: "response option \<Rightarrow> exn + json option" where
  "best_server_try resp =
     (case resp of
        None \<Rightarrow> Inl RequestException
      | Some r \<Rightarrow>
          bind_exn (raise_for_status (status_code r)) (\<lambda>_.
          bind_exn (response_json r) (\<lambda>result.
          bind_exn (py_get result ''status'' JNull) (\<lambda>status.
            if py_eq status (JStr ''ok'') then
              bind_exn (py_get result ''data'' (JObj [])) (\<lambda>data.
              bind_exn (py_get data ''servers'' (JList [])) (\<lambda>servers.
                if py_truthy servers then
                  bind_exn (py_iter servers) (\<lambda>items.
                  bind_exn (py_max items) (\<lambda>best_server.
                  bind_exn (py_get best_server ''name'' JNull) (\<lambda>server_name.
                    Inr (if py_truthy server_name then Some server_name else None))))
                else Inr None))
            else Inr None))))"

definition get_best_server :: "response option \<Rightarrow> world \<Rightarrow> json \<times> world" where
  "get_best_server resp w =
     (let w1 = emit Get_servers w in
      case best_server_try resp of
        Inr (Some server_name) \<Rightarrow> (server_name, print (Using_server server_name) w1)
      | Inr None \<Rightarrow> (JStr ''store1'', print No_best_server w1)
      | Inl e \<Rightarrow> (JStr ''store1'', print (Server_error e) w1))"

section \<open>Uploader: \<^verbatim>\<open>upload_to_gofile\<close>\<close>

text \<open>
  \<^verbatim>\<open>open(local_path, 'rb')\<close>: the file has to exist, and the outside may still
  refuse.
\<close>

definition open_rb :: "file_env \<Rightarrow> world \<Rightarrow> string \<Rightarrow> exn + unit" where
  "open_rb fe w path =
     (if files w path = None \<or> open_rb_fails fe then Inl OSError else Inr ())"

text \<open>
  Lines 130 to 147: what the answer to the POST is read as. \<open>Some info\<close> is the
  record built when the status is \<^verbatim>\<open>'ok'\<close>; \<open>None\<close> with the parsed body is the
  \<^verbatim>\<open>else\<close> branch of line 159.
\<close>

definition read_upload_response :: "string \<Rightarrow> response \<Rightarrow> exn + (json + upload_info)" where
  "read_upload_response file_path r =
     bind_exn (raise_for_status (status_code r)) (\<lambda>_.
     bind_exn (response_json r) (\<lambda>result.
     bind_exn (py_get result ''status'' JNull) (\<lambda>status.
       if py_eq status (JStr ''ok'') then
         bind_exn (py_get result ''data'' (JObj [])) (\<lambda>data.
         bind_exn (py_get data ''parentFolder'' JNull) (\<lambda>folder.
         bind_exn (py_get data ''downloadPage'' (JStr ''No disponible'')) (\<lambda>page.
         bind_exn (py_get data ''guestToken'' (JStr ''No disponible'')) (\<lambda>token.
           Inr (Inr \<lparr>file_name = basename file_path, folder_id = folder,
                        download_page = page, guest_token = token\<rparr>)))))
       else Inr (Inl result))))"

text \<open>
  Lines 148 to 158: the record is appended to the ledger first; then
  \<^verbatim>\<open>uploads_info.json\<close> is opened for writing and the whole ledger is dumped into it.
\<close>

definition record_upload :: "file_env \<Rightarrow> string \<Rightarrow> upload_info \<Rightarrow> world \<Rightarrow> (exn + bool) \<times> world" where
  "record_upload fe file_path info w =
     (let w1 = w\<lparr>successful_uploads := successful_uploads w @ [info]\<rparr> in
      if open_ledger_fails fe then (Inl OSError, w1)
      else
        (let w2 = w1\<lparr>files := (files w1)(''uploads_info.json'' \<mapsto> Json_dump (successful_uploads w1))\<rparr>;
             w3 = print (Uploaded file_path) w2;
             w4 = print (Download_page (download_page info)) w3;
             w5 = print (Folder_id (folder_id info)) w4;
             w6 = print (Guest_token (guest_token info)) w5
         in (Inr True, w6)))"

text \<open>Lines 116 to 161, the body of the \<^verbatim>\<open>try\<close>.\<close>

definition upload_try :: "file_env \<Rightarrow> json \<Rightarrow> string \<Rightarrow> string \<Rightarrow> world \<Rightarrow> (exn + bool) \<times> world" where
  "upload_try fe server local_path file_path w =
     (case open_rb fe w local_path of
        Inl e \<Rightarrow> (Inl e, w)
      | Inr _ \<Rightarrow>
          (let w1 = print (Uploading_to server) w;
               w2 = emit (Post_upload server local_path) w1
           in case upload_resp fe of
                None \<Rightarrow> (Inl RequestException, w2)
              | Some r \<Rightarrow>
                  (case read_upload_response file_path r of
                     Inl e \<Rightarrow> (Inl e, w2)
                   | Inr (Inl result) \<Rightarrow> (Inr False, print (Bad_response result) w2)
                   | Inr (Inr info) \<Rightarrow> record_upload fe file_path info w2)))"

text \<open>
  The whole function. The \<^verbatim>\<open>finally\<close> clause closes the file handle, which changes
  nothing that is modelled here.
\<close>

definition upload_to_gofile :: "file_env \<Rightarrow> string \<Rightarrow> string \<Rightarrow> world \<Rightarrow> bool \<times> world" where
  "upload_to_gofile fe local_path file_path w =
     (case get_best_server (servers_resp fe) w of
        (server, w1) \<Rightarrow>
          (case upload_try fe server local_path file_path w1 of
             (Inr ok, w2) \<Rightarrow> (ok, w2)
           | (Inl e, w2) \<Rightarrow> (False, print (Upload_error file_path e) w2)))"

section \<open>Cleanup\<close>

text \<open>
  \<^verbatim>\<open>os.remove\<close> raises \<^verbatim>\<open>OSError\<close> when the file does not exist or the system
  refuses; \<^verbatim>\<open>cleanup\<close> catches it.
\<close>

definition cleanup :: "file_env \<Rightarrow> string \<Rightarrow> world \<Rightarrow> world" where
  "cleanup fe local_path w =
     (if files w local_path = None \<or> remove_fails fe then print (Remove_error OSError) w
      else print (Removed local_path) (w\<lparr>files := (files w)(local_path := None)\<rparr>))"

section \<open>Transfer Orchestrator: \<^verbatim>\<open>main\<close>\<close>

text \<open>Lines 216 to 232, the body of the \<^verbatim>\<open>try\<close> inside the loop.\<close>

definition process_try :: "file_env \<Rightarrow> nat \<Rightarrow> nat \<Rightarrow> string \<Rightarrow> world \<Rightarrow> (exn + unit) \<times> world" where
  "process_try fe index len file_path w =
     (let w1 = print (Processing index len file_path) w in
      case download_file fe SOURCE_SPACE file_path w1 of
        (Inl e, w2) \<Rightarrow> (Inl e, w2)
      | (Inr None, w2) \<Rightarrow> (Inr (), w2)
      | (Inr (Some local_path), w2) \<Rightarrow>
          if local_path \<noteq> [] then
            (case upload_to_gofile fe local_path file_path w2 of
               (ok, w3) \<Rightarrow>
                 (let w4 = (if ok then cleanup fe local_path w3
                            else print (Upload_failed file_path) w3)
                  in if index < len
                     then (Inr (), emit (Sleep TIMEOUT_BETWEEN_UPLOADS)
                                     (print (Waiting TIMEOUT_BETWEEN_UPLOADS) w4))
                     else (Inr (), w4)))
          else (Inr (), w2))"

text \<open>One pass of the loop, with the \<^verbatim>\<open>except Exception\<close> of line 233.\<close>

definition process_file :: "file_env \<Rightarrow> nat \<Rightarrow> nat \<Rightarrow> string \<Rightarrow> world \<Rightarrow> world" where
  "process_file fe index len file_path w =
     (case process_try fe index len file_path w of
        (Inr _, w1) \<Rightarrow> w1
      | (Inl e, w1) \<Rightarrow> print (Process_error file_path e) w1)"

text \<open>The loop of line 214 over \<^verbatim>\<open>enumerate(file_list, 1)\<close>.\<close>

fun main_loop :: "(nat \<Rightarrow> file_env) \<Rightarrow> nat \<Rightarrow> (nat \<times> string) list \<Rightarrow> world \<Rightarrow> world" where
  "main_loop envs len [] w = w"
| "main_loop envs len (item # rest) w =
     main_loop envs len rest (process_file (envs (fst item)) (fst item) len (snd item) w)"

text \<open>
  \<^verbatim>\<open>main\<close> either returns at line 209, or reaches the keep-alive loop of line 245,
  which only an interrupt of the process ends: \<open>Serving\<close> is that state. Starting the
  web server thread (lines 198 to 200) is outside the model.
\<close>

datatype outcome = Returned world | Serving world

definition main :: "env \<Rightarrow> world \<Rightarrow> outcome" where
  "main en w =
     (let w0 = print Starting w in
      case get_file_list SOURCE_SPACE (listing_resp en) w0 of
        (file_list, w1) \<Rightarrow>
          if file_list = [] then Returned (print No_files w1)
          else
            (let w2 = print (Found (length file_list)) w1;
                 w3 = main_loop (per_file en) (length file_list) (enumerate 1 file_list) w2;
                 w4 = print Completed w3;
                 w5 = print (Uploaded_count (length (successful_uploads w4))) w4;
                 w6 = print Info_file w5;
                 w7 = print Server_active w6;
                 w8 = print Visit_uploads w7;
                 w9 = print Press_ctrl_c w8
             in Serving w9))"

section \<open>Reading the trace\<close>

text \<open>
  The events that the loop of \<^verbatim>\<open>main\<close> emits itself (lines 216 to 234), as opposed to
  those of the functions it calls.
\<close>

fun is_loop_event :: "event \<Rightarrow> bool" where
  "is_loop_event (Print (Processing i n f)) = True"
| "is_loop_event (Print (Upload_failed f)) = True"
| "is_loop_event (Print (Waiting k)) = True"
| "is_loop_event (Print (Process_error f e)) = True"
| "is_loop_event (Sleep k) = True"
| "is_loop_event _ = False"

text \<open>
  The start of a pass (line 216), the delay (line 232), both of them in the order they
  occur, and the log of line 234.
\<close>

fun is_processing :: "event \<Rightarrow> bool" where
  "is_processing (Print (Processing i n f)) = True"
| "is_processing _ = False"

fun is_sleep :: "event \<Rightarrow> bool" where
  "is_sleep (Sleep k) = True"
| "is_sleep _ = False"

fun is_pass_or_sleep :: "event \<Rightarrow> bool" where
  "is_pass_or_sleep (Print (Processing i n f)) = True"
| "is_pass_or_sleep (Sleep k) = True"
| "is_pass_or_sleep _ = False"

fun is_process_error :: "event \<Rightarrow> bool" where
  "is_process_error (Print (Process_error f e)) = True"
| "is_process_error _ = False"

fun is_transfer :: "event \<Rightarrow> bool" where
  "is_transfer (Get_download sp f) = True"
| "is_transfer Get_servers = True"
| "is_transfer (Post_upload srv p) = True"
| "is_transfer _ = False"

text \<open>
  What \<^verbatim>\<open>download_file\<close> returns for a file: it depends on the answers of the
  outside only, not on the state the program is in (lemma \<open>download_file_fst\<close>).
\<close>

definition download_result :: "file_env \<Rightarrow> string \<Rightarrow> exn + string option" where
  "download_result fe file_path = fst (download_file fe SOURCE_SPACE file_path init_world)"

definition download_succeeds :: "file_env \<Rightarrow> string \<Rightarrow> bool" where
  "download_succeeds fe file_path =
     (case download_result fe file_path of Inr (Some local_path) \<Rightarrow> True | _ \<Rightarrow> False)"

text \<open>
  The loop's own events of one pass after the first print, given what the download
  returned and whether the upload succeeded.
\<close>

definition loop_tail :: "exn + string option \<Rightarrow> bool \<Rightarrow> nat \<Rightarrow> nat \<Rightarrow> string \<Rightarrow> event list" where
  "loop_tail r ok index len file_path =
     (case r of
        Inl e \<Rightarrow> [Print (Process_error file_path e)]
      | Inr None \<Rightarrow> []
      | Inr (Some local_path) \<Rightarrow>
          (if ok then [] else [Print (Upload_failed file_path)]) @
          (if index < len
           then [Print (Waiting TIMEOUT_BETWEEN_UPLOADS), Sleep TIMEOUT_BETWEEN_UPLOADS]
           else []))"

section \<open>Example inputs\<close>

text \<open>
  A listing answered with HTTP 200 for a space that holds the given names (in the
  end-to-end scenario of the specification: \<^verbatim>\<open>a.txt\<close>, \<^verbatim>\<open>b.txt\<close> and
  \<^verbatim>\<open>.gitattributes\<close>).
\<close>

definition listing_of :: "string list \<Rightarrow> response" where
  "listing_of names =
     \<lparr>status_code = 200,
      json_body = Some (JObj [(''siblings'',
        JList (map (\<lambda>n. JObj [(''rfilename'', JStr n)]) names))])\<rparr>"

text \<open>An answer of the server-list service with the given candidates.\<close>

definition servers_answer :: "json list \<Rightarrow> response" where
  "servers_answer candidates =
     \<lparr>status_code = 200,
      json_body = Some (JObj [(''status'', JStr ''ok''),
        (''data'', JObj [(''servers'', JList candidates)])])\<rparr>"

definition server :: "string \<Rightarrow> int \<Rightarrow> json" where
  "server n k = JObj [(''name'', JStr n), (''score'', JInt k)]"

text \<open>The score a candidate is compared by: its integer \<^verbatim>\<open>score\<close>, and 0 without one.\<close>

definition score_or_zero :: "json \<Rightarrow> int" where
  "score_or_zero x = (case py_getitem x ''score'' of Inr (JInt k) \<Rightarrow> k | _ \<Rightarrow> 0)"

definition name_or_empty :: "json \<Rightarrow> string" where
  "name_or_empty x = (case py_getitem x ''name'' of Inr (JStr n) \<Rightarrow> n | _ \<Rightarrow> [])"

text \<open>
  The answer to an upload of the end-to-end scenario of the specification, and an
  outside where every call succeeds.
\<close>

definition upload_answer :: response where
  "upload_answer = \<lparr>status_code = 200, json_body = Some (JObj [(''status'', JStr ''ok''),
      (''data'', JObj [(''parentFolder'', JStr ''f1''), (''downloadPage'', JStr ''http://x/d1''),
                       (''guestToken'', JStr ''t1'')])])\<rparr>"

definition fe_ok :: file_env where
  "fe_ok = \<lparr>makedirs_fails = False,
      download_resp = Some \<lparr>stream_status = 200, chunks = [''abc''], stream_fails = False\<rparr>,
      open_wb_fails = False,
      servers_resp = Some (servers_answer [server ''a'' 5, server ''b'' 9]),
      open_rb_fails = False,
      upload_resp = Some upload_answer,
      open_ledger_fails = False,
      remove_fails = False\<rparr>"

definition world_with :: "string \<Rightarrow> world" where
  "world_with path = init_world\<lparr>files := [path \<mapsto> Raw ''abc'']\<rparr>"

text \<open>The same outside, except that the upload is answered with an HTTP error.\<close>

definition fe_upload_refused :: file_env where
  "fe_upload_refused = fe_ok\<lparr>upload_resp := Some \<lparr>status_code = 500, json_body = None\<rparr>\<rparr>"

text \<open>Runs of \<^verbatim>\<open>main\<close>: a listing of the given names, and the outside of each pass.\<close>

definition env_of :: "string list \<Rightarrow> (nat \<Rightarrow> file_env) \<Rightarrow> env" where
  "env_of names envs = \<lparr>listing_resp = Some (listing_of names), per_file = envs\<rparr>"

text \<open>An outside where the download directory cannot be made, and one where the
  download request raises.\<close>

definition fe_no_directory :: file_env where
  "fe_no_directory = fe_ok\<lparr>makedirs_fails := True\<rparr>"

definition fe_no_download :: file_env where
  "fe_no_download = fe_ok\<lparr>download_resp := None\<rparr>"

section \<open>Properties of the Remote Lister\<close>

lemma bind_exn_simps [simp]:
  "bind_exn (Inl e) f = Inl e"
  "bind_exn (Inr x) f = f x"
  by (simp_all add: bind_exn_def)

lemma sibling_names_well_formed:
  "list_all2 (\<lambda>f n. py_getitem f ''rfilename'' = Inr (JStr n)) sibs names \<Longrightarrow>
   sibling_names sibs = Inr (filter (\<lambda>n. \<not> endswith n ''.gitattributes'') names)"
  by (induction sibs names rule: list_all2_induct) simp_all

lemma length_filter_not:
  "length (filter (\<lambda>x. \<not> P x) xs) = length xs - length (filter P xs)"
  by (induction xs) (auto simp: Suc_diff_le)

text \<open>
  Claim C3. A listing answered with HTTP 200 whose body is an object with a list
  \<^verbatim>\<open>siblings\<close> of \<open>N\<close> descriptors, each with a string \<^verbatim>\<open>rfilename\<close>: the lister
  returns the names that do not end with \<^verbatim>\<open>.gitattributes\<close>, in the order of the
  answer, and their number is \<open>N - M\<close> where \<open>M\<close> names end with that suffix.
\<close>

theorem lister_returns_kept_names_in_order:
  assumes "status_code r = 200"
    and "json_body r = Some (JObj obj)"
    and "map_of obj ''siblings'' = Some (JList sibs)"
    and "list_all2 (\<lambda>f n. py_getitem f ''rfilename'' = Inr (JStr n)) sibs names"
  shows "fst (get_file_list space_name (Some r) w) =
           filter (\<lambda>n. \<not> endswith n ''.gitattributes'') names
         \<and> length (fst (get_file_list space_name (Some r) w)) =
           length sibs - length (filter (\<lambda>n. endswith n ''.gitattributes'') names)"
proof -
  have "parse_listing r = Inr (filter (\<lambda>n. \<not> endswith n ''.gitattributes'') names)"
    using assms(2,3) sibling_names_well_formed [OF assms(4)]
    by (simp add: parse_listing_def response_json_def)
  then have "fst (get_file_list space_name (Some r) w) =
      filter (\<lambda>n. \<not> endswith n ''.gitattributes'') names"
    using assms(1) by (simp add: get_file_list_def Let_def)
  moreover have "length sibs = length names"
    using assms(4) by (rule list_all2_lengthD)
  ultimately show ?thesis by (simp add: length_filter_not)
qed

theorem lister_returns_kept_names_in_order_witness:
  "fst (get_file_list SOURCE_SPACE
          (Some (listing_of [''a.txt'', ''.gitattributes'', ''b.txt''])) init_world)
     = [''a.txt'', ''b.txt'']
   \<and> length (fst (get_file_list SOURCE_SPACE
          (Some (listing_of [''a.txt'', ''.gitattributes'', ''b.txt''])) init_world))
     = 3 - 1"
  using lister_returns_kept_names_in_order
    [of "listing_of [''a.txt'', ''.gitattributes'', ''b.txt'']"
        "[(''siblings'', JList (map (\<lambda>n. JObj [(''rfilename'', JStr n)])
            [''a.txt'', ''.gitattributes'', ''b.txt'']))]"
        "map (\<lambda>n. JObj [(''rfilename'', JStr n)]) [''a.txt'', ''.gitattributes'', ''b.txt'']"
        "[''a.txt'', ''.gitattributes'', ''b.txt'']" SOURCE_SPACE init_world]
  by (simp add: listing_of_def endswith_def)

text \<open>
  Claim C4. When the request raises, when the status is not 200, or when reading the
  answer raises (any exception of the body of the \<^verbatim>\<open>try\<close>), the lister returns the
  empty list. It returns a list on every input: no exception leaves it.
\<close>

theorem lister_failure_gives_empty:
  assumes "resp = None
     \<or> (\<exists>r. resp = Some r \<and> (status_code r \<noteq> 200 \<or> (\<exists>e. parse_listing r = Inl e)))"
  shows "fst (get_file_list space_name resp w) = []"
  using assms by (auto simp: get_file_list_def Let_def split: option.splits sum.splits)

theorem lister_failure_gives_empty_witness:
  "fst (get_file_list SOURCE_SPACE None init_world) = []
   \<and> fst (get_file_list SOURCE_SPACE
        (Some \<lparr>status_code = 404, json_body = Some (JObj [])\<rparr>) init_world) = []
   \<and> fst (get_file_list SOURCE_SPACE
        (Some \<lparr>status_code = 200, json_body = None\<rparr>) init_world) = []
   \<and> fst (get_file_list SOURCE_SPACE
        (Some \<lparr>status_code = 200, json_body = Some (JObj [(''siblings'', JList [JInt 3])])\<rparr>)
        init_world) = []"
proof -
  have a: "fst (get_file_list SOURCE_SPACE None init_world) = []"
    by (rule lister_failure_gives_empty) simp
  have b: "fst (get_file_list SOURCE_SPACE
        (Some \<lparr>status_code = 404, json_body = Some (JObj [])\<rparr>) init_world) = []"
    by (rule lister_failure_gives_empty) simp
  have c: "fst (get_file_list SOURCE_SPACE
        (Some \<lparr>status_code = 200, json_body = None\<rparr>) init_world) = []"
    by (rule lister_failure_gives_empty) (simp add: parse_listing_def response_json_def)
  have d: "fst (get_file_list SOURCE_SPACE
        (Some \<lparr>status_code = 200, json_body = Some (JObj [(''siblings'', JList [JInt 3])])\<rparr>)
        init_world) = []"
    by (rule lister_failure_gives_empty) (simp add: parse_listing_def response_json_def)
  from a b c d show ?thesis by simp
qed

section \<open>Properties of the Server Selector\<close>

lemma py_eq_JStr [simp]: "py_eq v (JStr s) = (v = JStr s)"
  by (cases v) (auto split: bool.splits)

lemma max_loop_not_greater:
  "\<forall>y\<in>set ys. score_key y = Inr (JInt (sc y)) \<and> sc y \<le> b \<Longrightarrow>
   max_loop m (JInt b) ys = Inr m"
  by (induction ys) simp_all

lemma max_loop_reaches_first_maximum:
  "\<forall>y\<in>set pre. score_key y = Inr (JInt (sc y)) \<and> sc y < sc x \<Longrightarrow>
   score_key x = Inr (JInt (sc x)) \<Longrightarrow> b < sc x \<Longrightarrow>
   max_loop m (JInt b) (pre @ x # post) = max_loop x (JInt (sc x)) post"
  by (induction pre arbitrary: m b) simp_all

lemma py_max_first_maximum:
  assumes "\<forall>y\<in>set (pre @ x # post). score_key y = Inr (JInt (sc y))"
    and "\<forall>y\<in>set pre. sc y < sc x"
    and "\<forall>y\<in>set post. sc y \<le> sc x"
  shows "py_max (pre @ x # post) = Inr x"
proof -
  have post: "max_loop x (JInt (sc x)) post = Inr x"
    using assms(1,3) max_loop_not_greater [of post sc "sc x" x] by simp
  show ?thesis
  proof (cases pre)
    case Nil
    then show ?thesis using assms(1) post by simp
  next
    case (Cons p ps)
    have "max_loop p (JInt (sc p)) (ps @ x # post) = max_loop x (JInt (sc x)) post"
      using assms(1,2) Cons max_loop_reaches_first_maximum [of ps sc x "sc p" p post] by simp
    then show ?thesis using assms(1) post Cons by simp
  qed
qed

lemma first_maximum_exists:
  fixes f :: "'a \<Rightarrow> int"
  shows "xs \<noteq> [] \<Longrightarrow>
    \<exists>pre x post. xs = pre @ x # post \<and> (\<forall>y\<in>set pre. f y < f x) \<and> (\<forall>y\<in>set post. f y \<le> f x)"
proof (induction xs)
  case Nil
  then show ?case by simp
next
  case (Cons a xs)
  show ?case
  proof (cases "xs = []")
    case True
    then have "a # xs = [] @ a # []" by simp
    then show ?thesis by (metis empty_iff list.set(1))
  next
    case False
    from Cons.IH [OF False] obtain pre m post where
      xs: "xs = pre @ m # post" and pre: "\<forall>y\<in>set pre. f y < f m" and post: "\<forall>y\<in>set post. f y \<le> f m"
      by blast
    show ?thesis
    proof (cases "f a < f m")
      case True
      have "a # xs = (a # pre) @ m # post" using xs by simp
      moreover have "\<forall>y\<in>set (a # pre). f y < f m" using True pre by simp
      ultimately show ?thesis using post by blast
    next
      case False
      have "a # xs = [] @ a # xs" by simp
      moreover have "\<forall>y\<in>set xs. f y \<le> f a" using False pre post xs by fastforce
      ultimately show ?thesis by (metis empty_iff list.set(1))
    qed
  qed
qed

lemma max_loop_non_object:
  "\<exists>x\<in>set xs. \<forall>kvs. x \<noteq> JObj kvs \<Longrightarrow> \<exists>e. max_loop m mv xs = Inl e"
proof (induction xs arbitrary: m mv)
  case Nil
  then show ?case by simp
next
  case (Cons a xs)
  show ?case
  proof (cases "\<exists>kvs. a = JObj kvs")
    case False
    then have "score_key a = Inl AttributeError"
      by (cases a) (simp_all add: score_key_def)
    then show ?thesis by simp
  next
    case True
    then have rest: "\<exists>x\<in>set xs. \<forall>kvs. x \<noteq> JObj kvs" using Cons.prems by auto
    show ?thesis
    proof (cases "score_key a")
      case (Inl e)
      then show ?thesis by simp
    next
      case (Inr val)
      show ?thesis
      proof (cases "py_gt val mv")
        case (Inl e)
        then show ?thesis using Inr by simp
      next
        case (Inr g)
        then show ?thesis using \<open>score_key a = Inr val\<close> Cons.IH [OF rest] by simp
      qed
    qed
  qed
qed

lemma py_max_non_object:
  assumes "\<exists>x\<in>set xs. \<forall>kvs. x \<noteq> JObj kvs"
  shows "\<exists>e. py_max xs = Inl e"
proof (cases xs)
  case Nil
  then show ?thesis using assms by simp
next
  case (Cons a rest)
  show ?thesis
  proof (cases "score_key a")
    case (Inl e)
    then show ?thesis using Cons by simp
  next
    case (Inr val)
    then have "\<exists>kvs. a = JObj kvs" by (cases a) (simp_all add: score_key_def)
    then have "\<exists>x\<in>set rest. \<forall>kvs. x \<noteq> JObj kvs" using assms Cons by auto
    from max_loop_non_object [OF this] show ?thesis using Inr Cons by simp
  qed
qed


lemma py_get_of_getitem:
  "py_getitem v k = Inr x \<Longrightarrow> py_get v k d = Inr x"
  by (cases v) (auto split: option.splits)

lemma py_get_of_missing:
  "py_getitem v k = Inl (KeyError k') \<Longrightarrow> py_get v k d = Inr d"
  by (cases v) (auto split: option.splits)

lemma best_server_try_well_formed:
  assumes "\<not> (400 \<le> status_code r \<and> status_code r < 600)"
    and "json_body r = Some result"
    and "py_getitem result ''status'' = Inr (JStr ''ok'')"
    and "py_getitem result ''data'' = Inr data"
    and "py_getitem data ''servers'' = Inr (JList servers)"
    and "servers \<noteq> []"
  shows "best_server_try (Some r) =
           bind_exn (py_max servers) (\<lambda>best_server.
           bind_exn (py_get best_server ''name'' JNull) (\<lambda>server_name.
             Inr (if py_truthy server_name then Some server_name else None)))"
proof -
  have "raise_for_status (status_code r) = Inr ()"
    using assms(1) by (auto simp: raise_for_status_def)
  then show ?thesis
    using assms(2-6)
    by (simp add: best_server_try_def response_json_def py_get_of_getitem)
qed

lemma py_max_of_iter_non_list:
  assumes "\<forall>xs. s \<noteq> JList xs" and "py_truthy s"
  shows "\<exists>e. bind_exn (py_iter s) py_max = Inl e"
proof (cases s)
  case (JStr str)
  then obtain c cs where "str = c # cs" using assms(2) by (cases str) auto
  then show ?thesis using JStr by (simp add: score_key_def)
next
  case (JObj kvs)
  then obtain kv rest where "kvs = kv # rest" using assms(2) by (cases kvs) auto
  then show ?thesis using JObj by (simp add: score_key_def)
qed (use assms in simp_all)

lemma best_server_try_of_servers:
  assumes "raise_for_status (status_code r) = Inr ()"
    and "json_body r = Some result"
    and "py_get result ''status'' JNull = Inr (JStr ''ok'')"
    and "py_get result ''data'' (JObj []) = Inr data"
    and "py_get data ''servers'' (JList []) = Inr s"
  shows "best_server_try (Some r) =
     (if py_truthy s then
        bind_exn (bind_exn (py_iter s) py_max) (\<lambda>best_server.
        bind_exn (py_get best_server ''name'' JNull) (\<lambda>server_name.
          Inr (if py_truthy server_name then Some server_name else None)))
      else Inr None)"
  using assms
  by (cases "py_iter s") (simp_all add: best_server_try_def response_json_def)

lemma get_best_server_fallback:
  "best_server_try resp = Inl e \<or> best_server_try resp = Inr None \<Longrightarrow>
   fst (get_best_server resp w) = JStr ''store1''"
  by (auto simp: get_best_server_def Let_def)

text \<open>
  Claim C5. The server-list request is answered without an HTTP error, the body is an
  object with status \<^verbatim>\<open>ok\<close> whose \<^verbatim>\<open>data.servers\<close> is a non-empty list, and every
  candidate has an integer \<^verbatim>\<open>score\<close> and a non-empty string \<^verbatim>\<open>name\<close>. Then the
  selector returns the name of the first candidate of maximal score: every candidate
  before it has a smaller score, no candidate after it has a greater one.
\<close>

theorem selector_returns_first_best_name:
  assumes "\<not> (400 \<le> status_code r \<and> status_code r < 600)"
    and "json_body r = Some result"
    and "py_getitem result ''status'' = Inr (JStr ''ok'')"
    and "py_getitem result ''data'' = Inr data"
    and "py_getitem data ''servers'' = Inr (JList servers)"
    and "servers \<noteq> []"
    and "\<forall>x\<in>set servers. py_getitem x ''score'' = Inr (JInt (sc x))"
    and "\<forall>x\<in>set servers. py_getitem x ''name'' = Inr (JStr (nm x)) \<and> nm x \<noteq> []"
  shows "\<exists>pre x post. servers = pre @ x # post
           \<and> (\<forall>y\<in>set pre. sc y < sc x) \<and> (\<forall>y\<in>set post. sc y \<le> sc x)
           \<and> fst (get_best_server (Some r) w) = JStr (nm x)"
proof -
  from first_maximum_exists [OF assms(6), of sc] obtain pre x post where
    split: "servers = pre @ x # post" and pre: "\<forall>y\<in>set pre. sc y < sc x"
    and post: "\<forall>y\<in>set post. sc y \<le> sc x"
    by blast
  have keys: "\<forall>y\<in>set (pre @ x # post). score_key y = Inr (JInt (sc y))"
    using assms(7) split by (simp add: score_key_def py_get_of_getitem)
  have best: "py_max servers = Inr x"
    using py_max_first_maximum [OF keys pre post] split by simp
  have "x \<in> set servers" using split by simp
  then have name: "py_get x ''name'' JNull = Inr (JStr (nm x))" and "nm x \<noteq> []"
    using assms(8) by (simp_all add: py_get_of_getitem)
  then have "best_server_try (Some r) = Inr (Some (JStr (nm x)))"
    using best_server_try_well_formed [OF assms(1-6)] best by simp
  then have "fst (get_best_server (Some r) w) = JStr (nm x)"
    by (simp add: get_best_server_def Let_def)
  with split pre post show ?thesis by blast
qed

theorem selector_returns_first_best_name_witness:
  "fst (get_best_server (Some (servers_answer [server ''a'' 5, server ''b'' 9])) init_world)
     = JStr ''b''"
proof -
  let ?r = "servers_answer [server ''a'' 5, server ''b'' 9]"
  have "\<exists>pre x post. [server ''a'' 5, server ''b'' 9] = pre @ x # post
           \<and> (\<forall>y\<in>set pre. score_or_zero y < score_or_zero x)
           \<and> (\<forall>y\<in>set post. score_or_zero y \<le> score_or_zero x)
           \<and> fst (get_best_server (Some ?r) init_world) = JStr (name_or_empty x)"
    by (rule selector_returns_first_best_name
          [of ?r "JObj [(''status'', JStr ''ok''),
                        (''data'', JObj [(''servers'', JList [server ''a'' 5, server ''b'' 9])])]"
              "JObj [(''servers'', JList [server ''a'' 5, server ''b'' 9])]"])
       (simp_all add: servers_answer_def server_def score_or_zero_def name_or_empty_def)
  then obtain pre x post where
    split: "[server ''a'' 5, server ''b'' 9] = pre @ x # post"
    and post: "\<forall>y\<in>set post. score_or_zero y \<le> score_or_zero x"
    and res: "fst (get_best_server (Some ?r) init_world) = JStr (name_or_empty x)"
    by blast
  have scores: "score_or_zero (server ''a'' 5) = 5" "score_or_zero (server ''b'' 9) = 9"
    by (simp_all add: server_def score_or_zero_def)
  from split have "(pre = [] \<and> x = server ''a'' 5 \<and> post = [server ''b'' 9])
      \<or> (pre = [server ''a'' 5] \<and> x = server ''b'' 9 \<and> post = [])"
    by (auto simp: Cons_eq_append_conv)
  with post scores have "x = server ''b'' 9" by auto
  then show ?thesis using res by (simp add: server_def name_or_empty_def)
qed




text \<open>
  Claim C6, as amended. The selector returns the fallback \<^verbatim>\<open>store1\<close> when the request
  raises (network error), when the answer is an HTTP error, when the body is not JSON,
  is no object, has no status \<^verbatim>\<open>ok\<close>, or holds a \<^verbatim>\<open>data\<close> that is no object, and
  when the server list is empty or missing, is no list, holds an entry that is no
  object, or has no maximum because \<^verbatim>\<open>max\<close> raises (scores that cannot be compared).
  It returns a value on every input: no exception leaves it.
\<close>

theorem selector_failure_gives_fallback:
  assumes "resp = None
     \<or> (\<exists>r. resp = Some r \<and>
          (400 \<le> status_code r \<and> status_code r < 600
           \<or> json_body r = None
           \<or> (\<exists>result. json_body r = Some result \<and>
                ((\<forall>kvs. result \<noteq> JObj kvs)
                 \<or> py_getitem result ''status'' \<noteq> Inr (JStr ''ok'')
                 \<or> (\<exists>data. py_getitem result ''data'' = Inr data \<and> (\<forall>kvs. data \<noteq> JObj kvs))
                 \<or> (\<exists>data s. py_get result ''data'' (JObj []) = Inr data
                       \<and> py_get data ''servers'' (JList []) = Inr s
                       \<and> (s = JList []
                            \<or> (\<forall>xs. s \<noteq> JList xs)
                            \<or> (\<exists>xs. s = JList xs \<and> (\<exists>x\<in>set xs. \<forall>kvs. x \<noteq> JObj kvs))
                            \<or> (\<exists>xs e. s = JList xs \<and> py_max xs = Inl e)))))))"
  shows "fst (get_best_server resp w) = JStr ''store1''"
proof -
  have "(\<exists>e. best_server_try resp = Inl e) \<or> best_server_try resp = Inr None"
  proof (cases resp)
    case None
    then show ?thesis by (simp add: best_server_try_def)
  next
    case (Some r)
    show ?thesis
    proof (cases "raise_for_status (status_code r)")
      case (Inl e)
      then show ?thesis using Some by (simp add: best_server_try_def)
    next
      case ok: (Inr u)
      then have code: "\<not> (400 \<le> status_code r \<and> status_code r < 600)"
        by (auto simp: raise_for_status_def split: if_splits)
      show ?thesis
      proof (cases "json_body r")
        case None
        then show ?thesis using Some ok by (simp add: best_server_try_def response_json_def)
      next
        case body: (Some result)
        show ?thesis
        proof (cases "py_get result ''status'' JNull")
          case (Inl e)
          then show ?thesis
            using Some ok body by (simp add: best_server_try_def response_json_def)
        next
          case st: (Inr status)
          show ?thesis
          proof (cases "status = JStr ''ok''")
            case False
            then show ?thesis
              using Some ok body st by (simp add: best_server_try_def response_json_def)
          next
            case True
            then obtain kvs where obj: "result = JObj kvs"
              using st by (cases result) auto
            have status_ok: "py_getitem result ''status'' = Inr (JStr ''ok'')"
              using st True obj by (auto split: option.splits)
            have "\<exists>data. py_get result ''data'' (JObj []) = Inr data"
              using obj by (cases "map_of kvs ''data''") simp_all
            then obtain data where data: "py_get result ''data'' (JObj []) = Inr data"
              by blast
            show ?thesis
            proof (cases "py_get data ''servers'' (JList [])")
              case (Inl e)
              then show ?thesis
                using Some ok body st True data
                by (simp add: best_server_try_def response_json_def)
            next
              case servers: (Inr s)
              have unfold: "best_server_try resp =
                 (if py_truthy s then
                    bind_exn (bind_exn (py_iter s) py_max) (\<lambda>best_server.
                    bind_exn (py_get best_server ''name'' JNull) (\<lambda>server_name.
                      Inr (if py_truthy server_name then Some server_name else None)))
                  else Inr None)"
                using best_server_try_of_servers [of r result data s] Some ok body st True data servers
                by simp
              have data_obj: "\<exists>kvs. data = JObj kvs"
                using servers by (cases data) auto
              have same_data: "\<forall>d. py_getitem result ''data'' = Inr d \<longrightarrow> d = data"
                using data obj by (auto split: option.splits)
              from assms Some code body obj status_ok data_obj data servers same_data
              have shape: "s = JList [] \<or> (\<forall>xs. s \<noteq> JList xs)
                  \<or> (\<exists>xs. s = JList xs \<and> (\<exists>x\<in>set xs. \<forall>kvs. x \<noteq> JObj kvs))
                  \<or> (\<exists>xs e. s = JList xs \<and> py_max xs = Inl e)"
                by auto
              show ?thesis
              proof (cases "py_truthy s")
                case False
                then show ?thesis using unfold by simp
              next
                case truthy: True
                have "\<exists>e. bind_exn (py_iter s) py_max = Inl e"
                proof (cases "\<exists>xs. s = JList xs")
                  case False
                  then show ?thesis using py_max_of_iter_non_list truthy by blast
                next
                  case True
                  then obtain xs where xs: "s = JList xs" by blast
                  then have "(\<exists>x\<in>set xs. \<forall>kvs. x \<noteq> JObj kvs) \<or> (\<exists>e. py_max xs = Inl e)"
                    using shape truthy by auto
                  then have "\<exists>e. py_max xs = Inl e"
                    using py_max_non_object [of xs] by blast
                  then show ?thesis using xs by simp
                qed
                then show ?thesis using unfold truthy by auto
              qed
            qed
          qed
        qed
      qed
    qed
  qed
  then show ?thesis using get_best_server_fallback by blast
qed

theorem selector_failure_gives_fallback_witness:
  "fst (get_best_server None init_world) = JStr ''store1''
   \<and> fst (get_best_server (Some (servers_answer [])) init_world) = JStr ''store1''
   \<and> fst (get_best_server (Some \<lparr>status_code = 200, json_body = None\<rparr>) init_world)
       = JStr ''store1''
   \<and> fst (get_best_server (Some (servers_answer [server ''a'' 5, JStr ''b''])) init_world)
       = JStr ''store1''
   \<and> fst (get_best_server (Some (servers_answer
        [server ''a'' 1, JObj [(''name'', JStr ''b''), (''score'', JStr ''high'')]])) init_world)
       = JStr ''store1''"
proof -
  have a: "fst (get_best_server None init_world) = JStr ''store1''"
    by (rule selector_failure_gives_fallback) simp
  have b: "fst (get_best_server (Some (servers_answer [])) init_world) = JStr ''store1''"
    by (rule selector_failure_gives_fallback) (simp add: servers_answer_def)
  have c: "fst (get_best_server (Some \<lparr>status_code = 200, json_body = None\<rparr>) init_world)
       = JStr ''store1''"
    by (rule selector_failure_gives_fallback) simp
  have d: "fst (get_best_server (Some (servers_answer [server ''a'' 5, JStr ''b''])) init_world)
       = JStr ''store1''"
    by (rule selector_failure_gives_fallback) (simp add: servers_answer_def server_def)
  have e: "fst (get_best_server (Some (servers_answer
        [server ''a'' 1, JObj [(''name'', JStr ''b''), (''score'', JStr ''high'')]])) init_world)
       = JStr ''store1''"
    by (rule selector_failure_gives_fallback)
       (simp add: servers_answer_def server_def score_key_def)
  from a b c d e show ?thesis by simp
qed

text \<open>
  Claim C6 as stated fails: an answer whose only candidate has the number 7 as its
  \<^verbatim>\<open>name\<close> is malformed, and the selector returns 7, not the fallback (line 92 tests
  the name for truth only).
\<close>

theorem selector_returns_mistyped_name:
  "fst (get_best_server
        (Some (servers_answer [JObj [(''name'', JInt 7), (''score'', JInt 1)]])) init_world)
     = JInt 7
   \<and> fst (get_best_server
        (Some (servers_answer [JObj [(''name'', JInt 7), (''score'', JInt 1)]])) init_world)
     \<noteq> JStr ''store1''"
  by (simp add: get_best_server_def best_server_try_def raise_for_status_def response_json_def
        servers_answer_def score_key_def Let_def)

section \<open>Properties of the Uploader\<close>

lemma emit_simps [simp]:
  "files (emit e w) = files w"
  "successful_uploads (emit e w) = successful_uploads w"
  "trace (emit e w) = trace w @ [e]"
  by (simp_all add: emit_def)

lemma print_simps [simp]:
  "files (print m w) = files w"
  "successful_uploads (print m w) = successful_uploads w"
  "trace (print m w) = trace w @ [Print m]"
  by (simp_all add: print_def)

lemma get_best_server_frame:
  "files (snd (get_best_server resp w)) = files w"
  "successful_uploads (snd (get_best_server resp w)) = successful_uploads w"
  by (simp_all add: get_best_server_def Let_def split: sum.splits option.splits)

lemma read_upload_response_file_name:
  "read_upload_response file_path r = Inr (Inr info) \<Longrightarrow> file_name info = basename file_path"
  by (auto simp: read_upload_response_def bind_exn_def split: sum.splits if_splits)

lemma record_upload_True:
  assumes "record_upload fe file_path info w = (Inr True, w')"
  shows "successful_uploads w' = successful_uploads w @ [info]
       \<and> files w' ''uploads_info.json'' = Some (Json_dump (successful_uploads w'))"
  using assms by (auto simp: record_upload_def Let_def split: if_splits)

lemma upload_try_True:
  assumes "upload_try fe srv local_path file_path w = (Inr True, w')"
  shows "\<exists>info. file_name info = basename file_path
       \<and> successful_uploads w' = successful_uploads w @ [info]
       \<and> files w' ''uploads_info.json'' = Some (Json_dump (successful_uploads w'))"
proof -
  from assms obtain r info where
    r: "read_upload_response file_path r = Inr (Inr info)"
    and rec: "record_upload fe file_path info
       (emit (Post_upload srv local_path) (print (Uploading_to srv) w)) = (Inr True, w')"
    by (auto simp: upload_try_def Let_def split: sum.splits option.splits)
  from record_upload_True [OF rec] read_upload_response_file_name [OF r]
  show ?thesis by auto
qed

lemmas run_defs =
  upload_to_gofile_def get_best_server_def best_server_try_def
  raise_for_status_def response_json_def servers_answer_def server_def
  score_key_def upload_try_def open_rb_def init_world_def
  read_upload_response_def upload_answer_def record_upload_def Let_def basename_def
  download_file_def download_try_def open_wb_def path_join_def TEMP_DOWNLOAD_DIR_def
  SOURCE_SPACE_def

lemma upload_True_recorded:
  assumes "upload_to_gofile fe local_path file_path w = (True, w')"
  shows "\<exists>info. successful_uploads w' = successful_uploads w @ [info]
       \<and> length (successful_uploads w') = length (successful_uploads w) + 1
       \<and> file_name info = basename file_path
       \<and> files w' ''uploads_info.json'' = Some (Json_dump (successful_uploads w'))"
proof -
  obtain srv w1 where gs: "get_best_server (servers_resp fe) w = (srv, w1)"
    by (cases "get_best_server (servers_resp fe) w")
  have led: "successful_uploads w1 = successful_uploads w"
    using get_best_server_frame(2) [of "servers_resp fe" w] gs by simp
  from assms gs have "upload_try fe srv local_path file_path w1 = (Inr True, w')"
    by (auto simp: upload_to_gofile_def split: sum.splits prod.splits)
  from upload_try_True [OF this] led show ?thesis by auto
qed

lemma py_get_object: "\<exists>v. py_get (JObj kvs) k d = Inr v"
  by (cases "map_of kvs k") simp_all

lemma read_upload_response_ok:
  assumes "\<not> (400 \<le> status_code r \<and> status_code r < 600)"
    and "json_body r = Some result"
    and "py_getitem result ''status'' = Inr (JStr ''ok'')"
    and "py_getitem result ''data'' = Inl (KeyError ''data'')
         \<or> (\<exists>kvs. py_getitem result ''data'' = Inr (JObj kvs))"
  shows "\<exists>info. read_upload_response file_path r = Inr (Inr info)"
proof -
  have code: "raise_for_status (status_code r) = Inr ()"
    using assms(1) by (auto simp: raise_for_status_def)
  have st: "py_get result ''status'' JNull = Inr (JStr ''ok'')"
    using assms(3) by (rule py_get_of_getitem)
  have "\<exists>kvs. py_get result ''data'' (JObj []) = Inr (JObj kvs)"
    using assms(4) py_get_of_missing [of result "''data''" "''data''" "JObj []"]
      py_get_of_getitem [of result "''data''"]
    by auto
  then obtain kvs where data: "py_get result ''data'' (JObj []) = Inr (JObj kvs)" by blast
  obtain folder where f: "py_get (JObj kvs) ''parentFolder'' JNull = Inr folder"
    using py_get_object by blast
  obtain page where p: "py_get (JObj kvs) ''downloadPage'' (JStr ''No disponible'') = Inr page"
    using py_get_object by blast
  obtain token where t: "py_get (JObj kvs) ''guestToken'' (JStr ''No disponible'') = Inr token"
    using py_get_object by blast
  show ?thesis
    using code assms(2) st data f p t
    by (simp add: read_upload_response_def response_json_def)
qed

text \<open>
  Claim C1, as amended. The local file can be opened, the upload request is answered
  without an HTTP error by a JSON object with status \<^verbatim>\<open>ok\<close> whose \<^verbatim>\<open>data\<close> is an
  object or is missing, and \<^verbatim>\<open>uploads_info.json\<close> can be opened for writing. Then
  \<^verbatim>\<open>upload_to_gofile\<close> returns \<^verbatim>\<open>True\<close>, the ledger has grown by exactly one record,
  that record's \<^verbatim>\<open>file\<close> is the base name of the remote file name given to the
  uploader (\<^verbatim>\<open>os.path.basename(file_path)\<close>, line 143), and \<^verbatim>\<open>uploads_info.json\<close>
  holds the dump of the whole ledger as it is in memory.
\<close>

theorem upload_status_ok_recorded:
  assumes "files w local_path \<noteq> None"
    and "\<not> open_rb_fails fe"
    and "upload_resp fe = Some r"
    and "\<not> (400 \<le> status_code r \<and> status_code r < 600)"
    and "json_body r = Some result"
    and "py_getitem result ''status'' = Inr (JStr ''ok'')"
    and "py_getitem result ''data'' = Inl (KeyError ''data'')
         \<or> (\<exists>kvs. py_getitem result ''data'' = Inr (JObj kvs))"
    and "\<not> open_ledger_fails fe"
  shows "\<exists>w' info. upload_to_gofile fe local_path file_path w = (True, w')
       \<and> successful_uploads w' = successful_uploads w @ [info]
       \<and> length (successful_uploads w') = length (successful_uploads w) + 1
       \<and> file_name info = basename file_path
       \<and> files w' ''uploads_info.json'' = Some (Json_dump (successful_uploads w'))"
proof -
  obtain srv w1 where gs: "get_best_server (servers_resp fe) w = (srv, w1)"
    by (cases "get_best_server (servers_resp fe) w")
  have "files w1 = files w"
    using get_best_server_frame(1) [of "servers_resp fe" w] gs by simp
  then have opened: "open_rb fe w1 local_path = Inr ()"
    using assms(1,2) by (simp add: open_rb_def)
  from read_upload_response_ok [OF assms(4-7)] obtain info where
    info: "read_upload_response file_path r = Inr (Inr info)"
    by blast
  have "\<exists>w'. upload_try fe srv local_path file_path w1 = (Inr True, w')"
    using opened assms(3,8) info by (simp add: upload_try_def record_upload_def Let_def)
  then obtain w' where "upload_try fe srv local_path file_path w1 = (Inr True, w')" by blast
  then have u: "upload_to_gofile fe local_path file_path w = (True, w')"
    using gs by (simp add: upload_to_gofile_def)
  from upload_True_recorded [OF u] u show ?thesis by blast
qed

theorem upload_status_ok_recorded_witness:
  "\<exists>w' info. upload_to_gofile fe_ok ''./temp_downloads/a.txt'' ''a.txt''
          (world_with ''./temp_downloads/a.txt'') = (True, w')
       \<and> successful_uploads w' = successful_uploads (world_with ''./temp_downloads/a.txt'') @ [info]
       \<and> length (successful_uploads w') = 1
       \<and> file_name info = ''a.txt''
       \<and> files w' ''uploads_info.json'' = Some (Json_dump (successful_uploads w'))"
proof -
  have "\<exists>w' info. upload_to_gofile fe_ok ''./temp_downloads/a.txt'' ''a.txt''
          (world_with ''./temp_downloads/a.txt'') = (True, w')
       \<and> successful_uploads w' = successful_uploads (world_with ''./temp_downloads/a.txt'') @ [info]
       \<and> length (successful_uploads w') =
           length (successful_uploads (world_with ''./temp_downloads/a.txt'')) + 1
       \<and> file_name info = basename ''a.txt''
       \<and> files w' ''uploads_info.json'' = Some (Json_dump (successful_uploads w'))"
    by (rule upload_status_ok_recorded
          [of _ _ _ upload_answer
              "JObj [(''status'', JStr ''ok''),
                 (''data'', JObj [(''parentFolder'', JStr ''f1''),
                    (''downloadPage'', JStr ''http://x/d1''), (''guestToken'', JStr ''t1'')])]"])
       (simp_all add: fe_ok_def world_with_def upload_answer_def)
  then show ?thesis
    by (simp add: world_with_def init_world_def basename_def)
qed

text \<open>
  Claim C1 as stated fails: for the remote name \<^verbatim>\<open>models/a.txt\<close> the upload succeeds
  and the record appended to the ledger carries \<^verbatim>\<open>a.txt\<close>, not the remote name.
\<close>

theorem upload_record_is_not_remote_name:
  "fst (upload_to_gofile fe_ok ''./temp_downloads/a.txt'' ''models/a.txt''
          (world_with ''./temp_downloads/a.txt'')) = True
   \<and> file_name (last (successful_uploads (snd (upload_to_gofile fe_ok ''./temp_downloads/a.txt''
          ''models/a.txt'' (world_with ''./temp_downloads/a.txt''))))) = ''a.txt''
   \<and> file_name (last (successful_uploads (snd (upload_to_gofile fe_ok ''./temp_downloads/a.txt''
          ''models/a.txt'' (world_with ''./temp_downloads/a.txt''))))) \<noteq> ''models/a.txt''"
  by (simp add: run_defs fe_ok_def world_with_def)

section \<open>Properties of one pass of the loop\<close>

lemma basename_no_slash: "CHR ''/'' \<notin> set (basename p)"
proof -
  have "\<forall>c\<in>set (takeWhile (\<lambda>c. c \<noteq> CHR ''/'') (rev p)). c \<noteq> CHR ''/''"
    by (auto dest: set_takeWhileD)
  then show ?thesis by (auto simp: basename_def)
qed

lemma temp_path: "path_join TEMP_DOWNLOAD_DIR (basename f) = ''./temp_downloads/'' @ basename f"
proof -
  have "basename f = [] \<or> hd (basename f) \<noteq> CHR ''/''"
    using basename_no_slash [of f] by (cases "basename f") auto
  then show ?thesis by (auto simp: path_join_def TEMP_DOWNLOAD_DIR_def)
qed

lemma download_file_Some:
  assumes "download_file fe sp f w = (Inr (Some p), w2)"
  shows "p = ''./temp_downloads/'' @ basename f \<and> files w2 p \<noteq> None
       \<and> successful_uploads w2 = successful_uploads w"
  using assms
  by (auto simp: download_file_def download_try_def Let_def temp_path
      split: if_splits option.splits sum.splits prod.splits)

lemma record_upload_frame:
  "record_upload fe f info w = (r, w') \<Longrightarrow> q \<noteq> ''uploads_info.json'' \<Longrightarrow> files w' q = files w q"
  by (auto simp: record_upload_def Let_def split: if_splits)

lemma upload_try_frame:
  "upload_try fe srv lp f w = (r, w') \<Longrightarrow> q \<noteq> ''uploads_info.json'' \<Longrightarrow> files w' q = files w q"
  by (auto simp: upload_try_def Let_def record_upload_frame split: sum.splits option.splits)

lemma upload_to_gofile_frame:
  assumes "upload_to_gofile fe lp f w = (ok, w')" and "q \<noteq> ''uploads_info.json''"
  shows "files w' q = files w q"
proof -
  obtain srv w1 where gs: "get_best_server (servers_resp fe) w = (srv, w1)"
    by (cases "get_best_server (servers_resp fe) w")
  have w1: "files w1 = files w"
    using get_best_server_frame(1) [of "servers_resp fe" w] gs by simp
  obtain r w2 where ut: "upload_try fe srv lp f w1 = (r, w2)"
    by (cases "upload_try fe srv lp f w1")
  have "files w2 q = files w1 q" by (rule upload_try_frame [OF ut assms(2)])
  moreover have "files w' = files w2"
    using assms(1) gs ut by (auto simp: upload_to_gofile_def split: sum.splits)
  ultimately show ?thesis using w1 by simp
qed

lemma cleanup_removes:
  "\<not> remove_fails fe \<Longrightarrow> files (cleanup fe p w) p = None"
  by (simp add: cleanup_def)

text \<open>
  Claim C2. The download of a file succeeded and gave a local path. When the upload
  then succeeds and \<^verbatim>\<open>os.remove\<close> is not refused, no file is left at that path after
  the pass; when the upload fails, the file is still there after the pass
  (\<^verbatim>\<open>cleanup\<close> is not called).
\<close>

theorem temp_file_removed_iff_upload_succeeds:
  assumes "download_file fe SOURCE_SPACE file_path (print (Processing index len file_path) w)
             = (Inr (Some local_path), w2)"
    and "upload_to_gofile fe local_path file_path w2 = (ok, w3)"
  shows "(ok \<and> \<not> remove_fails fe \<longrightarrow> files (process_file fe index len file_path w) local_path = None)
       \<and> (\<not> ok \<longrightarrow> files (process_file fe index len file_path w) local_path \<noteq> None)"
proof -
  have p: "local_path = ''./temp_downloads/'' @ basename file_path"
    using download_file_Some [OF assms(1)] by blast
  have ex: "files w2 local_path \<noteq> None"
    using download_file_Some [OF assms(1)] by blast
  from p have ne: "local_path \<noteq> []" and nl: "local_path \<noteq> ''uploads_info.json''" by auto
  have kept: "files w3 local_path = files w2 local_path"
    by (rule upload_to_gofile_frame [OF assms(2) nl])
  have pf: "files (process_file fe index len file_path w) =
      files (if ok then cleanup fe local_path w3 else print (Upload_failed file_path) w3)"
    using assms ne by (simp add: process_file_def process_try_def Let_def)
  show ?thesis using pf kept ex by (auto simp: cleanup_removes)
qed


theorem temp_file_removed_iff_upload_succeeds_witness:
  "files (process_file fe_ok 1 1 ''a.txt'' init_world) ''./temp_downloads/a.txt'' = None
   \<and> files (process_file fe_upload_refused 1 1 ''a.txt'' init_world) ''./temp_downloads/a.txt''
       \<noteq> None"
proof -
  let ?w1 = "print (Processing 1 1 ''a.txt'') init_world"
  let ?p = "''./temp_downloads/a.txt''"
  let ?d = "download_file fe_ok SOURCE_SPACE ''a.txt'' ?w1"
  let ?u = "upload_to_gofile fe_ok ?p ''a.txt'' (snd ?d)"
  have "fst ?d = Inr (Some ?p)"
    by (simp add: run_defs fe_ok_def)
  then have d: "?d = (Inr (Some ?p), snd ?d)" by (simp add: prod_eq_iff)
  have "fst ?u = True"
    by (simp add: run_defs fe_ok_def)
  then have u: "?u = (True, snd ?u)" by (simp add: prod_eq_iff)
  have a: "files (process_file fe_ok 1 1 ''a.txt'' init_world) ?p = None"
    using temp_file_removed_iff_upload_succeeds [OF d u] by (simp add: fe_ok_def)
  let ?d' = "download_file fe_upload_refused SOURCE_SPACE ''a.txt'' ?w1"
  let ?u' = "upload_to_gofile fe_upload_refused ?p ''a.txt'' (snd ?d')"
  have "fst ?d' = Inr (Some ?p)"
    by (simp add: run_defs fe_ok_def fe_upload_refused_def)
  then have d': "?d' = (Inr (Some ?p), snd ?d')" by (simp add: prod_eq_iff)
  have "fst ?u' = False"
    by (simp add: run_defs fe_ok_def fe_upload_refused_def)
  then have u': "?u' = (False, snd ?u')" by (simp add: prod_eq_iff)
  have b: "files (process_file fe_upload_refused 1 1 ''a.txt'' init_world) ?p \<noteq> None"
    using temp_file_removed_iff_upload_succeeds [OF d' u'] by simp
  from a b show ?thesis by simp
qed


section \<open>Properties of the Transfer Orchestrator\<close>

lemma get_best_server_quiet:
  "filter is_loop_event (trace (snd (get_best_server resp w))) = filter is_loop_event (trace w)"
  by (simp add: get_best_server_def Let_def split: sum.splits option.splits)

lemma download_file_quiet:
  "filter is_loop_event (trace (snd (download_file fe sp f w))) = filter is_loop_event (trace w)"
  by (simp add: download_file_def download_try_def Let_def
      split: if_splits option.splits sum.splits prod.splits)

lemma download_file_fst:
  "fst (download_file fe sp f w) = fst (download_file fe sp f w')"
  by (simp add: download_file_def download_try_def Let_def
      split: if_splits option.splits sum.splits prod.splits)

lemma record_upload_quiet:
  "filter is_loop_event (trace (snd (record_upload fe f info w))) = filter is_loop_event (trace w)"
  by (simp add: record_upload_def Let_def)

lemma upload_try_quiet:
  "filter is_loop_event (trace (snd (upload_try fe srv lp f w))) = filter is_loop_event (trace w)"
  by (simp add: upload_try_def Let_def record_upload_quiet split: sum.splits option.splits)

lemma upload_to_gofile_quiet:
  "filter is_loop_event (trace (snd (upload_to_gofile fe lp f w))) = filter is_loop_event (trace w)"
proof -
  obtain srv w1 where gs: "get_best_server (servers_resp fe) w = (srv, w1)"
    by (cases "get_best_server (servers_resp fe) w")
  obtain r w2 where ut: "upload_try fe srv lp f w1 = (r, w2)"
    by (cases "upload_try fe srv lp f w1")
  have "filter is_loop_event (trace w1) = filter is_loop_event (trace w)"
    using get_best_server_quiet [of "servers_resp fe" w] gs by simp
  moreover have "filter is_loop_event (trace w2) = filter is_loop_event (trace w1)"
    using upload_try_quiet [of fe srv lp f w1] ut by simp
  ultimately show ?thesis
    using gs ut by (cases r) (simp_all add: upload_to_gofile_def)
qed

lemma cleanup_quiet:
  "filter is_loop_event (trace (cleanup fe p w)) = filter is_loop_event (trace w)"
  by (simp add: cleanup_def)

lemma process_file_loop_events:
  "\<exists>ok. filter is_loop_event (trace (process_file fe index len file_path w)) =
     filter is_loop_event (trace w) @
     Print (Processing index len file_path) #
     loop_tail (download_result fe file_path) ok index len file_path"
proof -
  let ?w1 = "print (Processing index len file_path) w"
  obtain r w2 where d: "download_file fe SOURCE_SPACE file_path ?w1 = (r, w2)"
    by (cases "download_file fe SOURCE_SPACE file_path ?w1")
  have r: "download_result fe file_path = r"
    using download_file_fst [of fe SOURCE_SPACE file_path init_world ?w1] d
    by (simp add: download_result_def)
  have w2: "filter is_loop_event (trace w2) =
      filter is_loop_event (trace w) @ [Print (Processing index len file_path)]"
    using download_file_quiet [of fe SOURCE_SPACE file_path ?w1] d by simp
  show ?thesis
  proof (cases r)
    case (Inl e)
    then show ?thesis
      using d r w2 by (simp add: process_file_def process_try_def Let_def loop_tail_def)
  next
    case (Inr res)
    show ?thesis
    proof (cases res)
      case None
      then show ?thesis
        using Inr d r w2 by (simp add: process_file_def process_try_def Let_def loop_tail_def)
    next
      case (Some p)
      have ne: "p \<noteq> []"
        using download_file_Some [of fe SOURCE_SPACE file_path ?w1 p w2] d Inr Some by auto
      obtain ok w3 where u: "upload_to_gofile fe p file_path w2 = (ok, w3)"
        by (cases "upload_to_gofile fe p file_path w2")
      have w3: "filter is_loop_event (trace w3) = filter is_loop_event (trace w2)"
        using upload_to_gofile_quiet [of fe p file_path w2] u by simp
      have "filter is_loop_event (trace (process_file fe index len file_path w)) =
        filter is_loop_event (trace w) @
        Print (Processing index len file_path) #
        loop_tail (download_result fe file_path) ok index len file_path"
        using Inr Some d r w2 w3 u ne
        by (simp add: process_file_def process_try_def Let_def loop_tail_def cleanup_quiet)
      then show ?thesis by blast
    qed
  qed
qed


lemma filter_refine:
  "(\<And>x. P x \<Longrightarrow> Q x) \<Longrightarrow> filter P (filter Q xs) = filter P xs"
  by (induction xs) auto

lemma filter_refine_eq:
  assumes "\<And>x. P x \<Longrightarrow> Q x" and "filter Q xs = filter Q ys"
  shows "filter P xs = filter P ys"
proof -
  have "filter P xs = filter P (filter Q xs)" using filter_refine [of P Q xs] assms(1) by simp
  also have "\<dots> = filter P (filter Q ys)" using assms(2) by simp
  also have "\<dots> = filter P ys" using filter_refine [of P Q ys] assms(1) by simp
  finally show ?thesis .
qed

lemma processing_is_loop_event: "is_processing e \<Longrightarrow> is_loop_event e"
  by (erule is_processing.elims) simp_all

lemma sleep_is_loop_event: "is_sleep e \<Longrightarrow> is_loop_event e"
  by (erule is_sleep.elims) simp_all

lemma process_error_is_loop_event: "is_process_error e \<Longrightarrow> is_loop_event e"
  by (erule is_process_error.elims) simp_all

lemma process_file_refined:
  assumes "\<And>e. P e \<Longrightarrow> is_loop_event e"
  shows "\<exists>ok. filter P (trace (process_file fe index len file_path w)) =
     filter P (trace w) @
     filter P (Print (Processing index len file_path) #
       loop_tail (download_result fe file_path) ok index len file_path)"
proof -
  from process_file_loop_events [of fe index len file_path w] obtain ok where
    eq: "filter is_loop_event (trace (process_file fe index len file_path w)) =
     filter is_loop_event (trace w) @
     Print (Processing index len file_path) #
     loop_tail (download_result fe file_path) ok index len file_path"
    by blast
  have "filter P (trace (process_file fe index len file_path w)) =
      filter P (filter is_loop_event (trace (process_file fe index len file_path w)))"
    using filter_refine [of P is_loop_event] assms by simp
  also have "\<dots> = filter P (filter is_loop_event (trace w)) @
     filter P (Print (Processing index len file_path) #
       loop_tail (download_result fe file_path) ok index len file_path)"
    by (simp only: eq filter_append)
  also have "filter P (filter is_loop_event (trace w)) = filter P (trace w)"
    using filter_refine [of P is_loop_event] assms by simp
  finally show ?thesis by blast
qed

lemma process_file_processing:
  "filter is_processing (trace (process_file fe index len file_path w)) =
     filter is_processing (trace w) @ [Print (Processing index len file_path)]"
proof -
  from process_file_refined [of is_processing fe index len file_path w, OF processing_is_loop_event]
  obtain ok where eq: "filter is_processing (trace (process_file fe index len file_path w)) =
     filter is_processing (trace w) @
     filter is_processing (Print (Processing index len file_path) #
       loop_tail (download_result fe file_path) ok index len file_path)"
    by blast
  show ?thesis
  proof (cases "download_result fe file_path")
    case (Inl e)
    then show ?thesis using eq by (simp add: loop_tail_def)
  next
    case (Inr res)
    then show ?thesis using eq by (cases res) (simp_all add: loop_tail_def)
  qed
qed

lemma process_file_sleep:
  "filter is_sleep (trace (process_file fe index len file_path w)) =
     filter is_sleep (trace w) @
     (if download_succeeds fe file_path \<and> index < len then [Sleep TIMEOUT_BETWEEN_UPLOADS] else [])"
proof -
  from process_file_refined [of is_sleep fe index len file_path w, OF sleep_is_loop_event]
  obtain ok where eq: "filter is_sleep (trace (process_file fe index len file_path w)) =
     filter is_sleep (trace w) @
     filter is_sleep (Print (Processing index len file_path) #
       loop_tail (download_result fe file_path) ok index len file_path)"
    by blast
  show ?thesis
  proof (cases "download_result fe file_path")
    case (Inl e)
    then show ?thesis using eq by (simp add: loop_tail_def download_succeeds_def)
  next
    case (Inr res)
    then show ?thesis using eq by (cases res) (simp_all add: loop_tail_def download_succeeds_def)
  qed
qed

lemma process_file_process_error:
  "filter is_process_error (trace (process_file fe index len file_path w)) =
     filter is_process_error (trace w) @
     (case download_result fe file_path of
        Inl e \<Rightarrow> [Print (Process_error file_path e)]
      | Inr _ \<Rightarrow> [])"
proof -
  from process_file_refined [of is_process_error fe index len file_path w, OF process_error_is_loop_event]
  obtain ok where eq: "filter is_process_error (trace (process_file fe index len file_path w)) =
     filter is_process_error (trace w) @
     filter is_process_error (Print (Processing index len file_path) #
       loop_tail (download_result fe file_path) ok index len file_path)"
    by blast
  show ?thesis
  proof (cases "download_result fe file_path")
    case (Inl e)
    then show ?thesis using eq by (simp add: loop_tail_def)
  next
    case (Inr res)
    then show ?thesis using eq by (cases res) (simp_all add: loop_tail_def)
  qed
qed

lemma main_loop_processing:
  "filter is_processing (trace (main_loop envs len items w)) =
     filter is_processing (trace w) @
     map (\<lambda>item. Print (Processing (fst item) len (snd item))) items"
  by (induction items arbitrary: w) (simp_all add: process_file_processing)

lemma main_loop_sleep:
  "filter is_sleep (trace (main_loop envs len items w)) =
     filter is_sleep (trace w) @
     map (\<lambda>item. Sleep TIMEOUT_BETWEEN_UPLOADS)
       (filter (\<lambda>item. download_succeeds (envs (fst item)) (snd item) \<and> fst item < len) items)"
  by (induction items arbitrary: w) (simp_all add: process_file_sleep)

lemma main_loop_process_error:
  "filter is_process_error (trace (main_loop envs len items w)) =
     filter is_process_error (trace w) @
     concat (map (\<lambda>item. case download_result (envs (fst item)) (snd item) of
        Inl e \<Rightarrow> [Print (Process_error (snd item) e)]
      | Inr _ \<Rightarrow> []) items)"
  by (induction items arbitrary: w) (simp_all add: process_file_process_error)

lemma get_file_list_frame:
  "files (snd (get_file_list sp resp w)) = files w"
  "successful_uploads (snd (get_file_list sp resp w)) = successful_uploads w"
  "filter is_loop_event (trace (snd (get_file_list sp resp w))) = filter is_loop_event (trace w)"
  "filter is_transfer (trace (snd (get_file_list sp resp w))) = filter is_transfer (trace w)"
  by (simp_all add: get_file_list_def Let_def split: option.splits sum.splits)

lemma process_try_raises:
  assumes "fst (process_try fe index len file_path w0) = Inl e"
  shows "download_result fe file_path = Inl e"
proof -
  let ?w1 = "print (Processing index len file_path) w0"
  obtain r w2 where d: "download_file fe SOURCE_SPACE file_path ?w1 = (r, w2)"
    by (cases "download_file fe SOURCE_SPACE file_path ?w1")
  have r: "download_result fe file_path = r"
    using download_file_fst [of fe SOURCE_SPACE file_path init_world ?w1] d
    by (simp add: download_result_def)
  from assms d have "r = Inl e"
    by (auto simp: process_try_def Let_def split: sum.splits option.splits prod.splits if_splits)
  with r show ?thesis by simp
qed


lemma main_reaches_serving:
  assumes "fst (get_file_list SOURCE_SPACE (listing_resp en) (print Starting w)) = file_list"
    and "file_list \<noteq> []"
  shows "\<exists>w'. main en w = Serving w'"
  using assms
  by (cases "get_file_list SOURCE_SPACE (listing_resp en) (print Starting w)")
     (simp add: main_def Let_def)

lemma main_serving_trace:
  assumes "fst (get_file_list SOURCE_SPACE (listing_resp en) (print Starting w)) = file_list"
    and "file_list \<noteq> []"
    and "main en w = Serving w'"
    and "\<And>e. P e \<Longrightarrow> is_loop_event e"
  shows "\<exists>w2. filter P (trace w2) = filter P (trace w)
     \<and> filter P (trace w') =
        filter P (trace (main_loop (per_file en) (length file_list) (enumerate 1 file_list) w2))"
proof -
  obtain w1 where g: "get_file_list SOURCE_SPACE (listing_resp en) (print Starting w) = (file_list, w1)"
    using assms(1) by (cases "get_file_list SOURCE_SPACE (listing_resp en) (print Starting w)") simp
  have no: "\<And>m. \<not> is_loop_event (Print m) \<Longrightarrow> \<not> P (Print m)"
    using assms(4) by blast
  let ?w2 = "print (Found (length file_list)) w1"
  have "filter is_loop_event (trace w1) = filter is_loop_event (trace (print Starting w))"
    using get_file_list_frame(3) [of SOURCE_SPACE "listing_resp en" "print Starting w"] g by simp
  then have "filter P (trace w1) = filter P (trace (print Starting w))"
    using filter_refine_eq [of P is_loop_event] assms(4) by blast
  then have a: "filter P (trace ?w2) = filter P (trace w)"
    by (simp add: no)
  have b: "filter P (trace w') =
        filter P (trace (main_loop (per_file en) (length file_list) (enumerate 1 file_list) ?w2))"
    using g assms(2,3) by (auto simp: main_def Let_def no)
  from a b show ?thesis by blast
qed

lemma enumerate_butlast:
  assumes "xs \<noteq> []"
  shows "filter (\<lambda>item. Q item \<and> fst item < length xs) (enumerate 1 xs) =
         filter Q (enumerate 1 (butlast xs))"
proof -
  have xs: "xs = butlast xs @ [last xs]" using assms by simp
  have len: "Suc (length (butlast xs)) = length xs" using assms by simp
  have "enumerate 1 xs = enumerate 1 (butlast xs @ [last xs])" using xs by simp
  also have "\<dots> = enumerate 1 (butlast xs) @ [(length xs, last xs)]"
    using len by (simp add: enumerate_append_eq)
  finally have e: "enumerate 1 xs = enumerate 1 (butlast xs) @ [(length xs, last xs)]" .
  have "\<forall>item\<in>set (enumerate 1 (butlast xs)). fst item < length xs"
    using len by (auto simp: in_set_enumerate_eq)
  then have "filter (\<lambda>item. Q item \<and> fst item < length xs) (enumerate 1 (butlast xs)) =
      filter Q (enumerate 1 (butlast xs))"
    by (intro filter_cong) auto
  then show ?thesis by (subst e) simp
qed

lemmas listing_defs =
  env_of_def listing_of_def get_file_list_def parse_listing_def response_json_def
  endswith_def Let_def

text \<open>
  Claim C7. When the listing is not empty, \<^verbatim>\<open>main\<close> runs the loop to its end and
  reaches the keep-alive loop. The passes that were started are exactly the listed
  files, each once, in the order of the list, whatever the outside answers; and an
  exception that the body of a pass raises is logged by line 234 (the run goes on: the
  later passes are in the trace all the same).
\<close>

theorem every_listed_file_attempted_once:
  assumes "fst (get_file_list SOURCE_SPACE (listing_resp en) (print Starting w)) = file_list"
    and "file_list \<noteq> []"
  shows "\<exists>w'. main en w = Serving w'
     \<and> filter is_processing (trace w') =
         filter is_processing (trace w) @
         map (\<lambda>item. Print (Processing (fst item) (length file_list) (snd item)))
           (enumerate 1 file_list)
     \<and> (\<forall>i<length file_list. \<forall>e w0.
           fst (process_try (per_file en (Suc i)) (Suc i) (length file_list) (file_list ! i) w0)
             = Inl e
           \<longrightarrow> Print (Process_error (file_list ! i) e) \<in> set (trace w'))"
proof -
  from main_reaches_serving [OF assms] obtain w' where m: "main en w = Serving w'" by blast
  from main_serving_trace [where P = is_processing, OF assms m processing_is_loop_event]
  have a: "filter is_processing (trace w') =
         filter is_processing (trace w) @
         map (\<lambda>item. Print (Processing (fst item) (length file_list) (snd item)))
           (enumerate 1 file_list)"
    by (auto simp: main_loop_processing)
  from main_serving_trace [where P = is_process_error, OF assms m process_error_is_loop_event]
  have errs: "filter is_process_error (trace w') =
      filter is_process_error (trace w) @
      concat (map (\<lambda>item. case download_result (per_file en (fst item)) (snd item) of
          Inl e \<Rightarrow> [Print (Process_error (snd item) e)]
        | Inr _ \<Rightarrow> []) (enumerate 1 file_list))"
    by (auto simp: main_loop_process_error)
  have b: "Print (Process_error (file_list ! i) e) \<in> set (trace w')"
    if i: "i < length file_list"
      and r: "fst (process_try (per_file en (Suc i)) (Suc i) (length file_list) (file_list ! i) w0)
             = Inl e"
    for i e w0
  proof -
    have item: "(Suc i, file_list ! i) \<in> set (enumerate 1 file_list)"
      using i by (auto simp: in_set_enumerate_eq)
    have "download_result (per_file en (Suc i)) (file_list ! i) = Inl e"
      by (rule process_try_raises [OF r])
    then have "Print (Process_error (file_list ! i) e) \<in>
        set (concat (map (\<lambda>item. case download_result (per_file en (fst item)) (snd item) of
          Inl e \<Rightarrow> [Print (Process_error (snd item) e)]
        | Inr _ \<Rightarrow> []) (enumerate 1 file_list)))"
      using item by (force simp: set_concat)
    then have "Print (Process_error (file_list ! i) e) \<in> set (filter is_process_error (trace w'))"
      using errs by simp
    then show ?thesis by simp
  qed
  from m a b show ?thesis by blast
qed

theorem every_listed_file_attempted_once_witness:
  "\<exists>w'. main (env_of [''a.txt'', ''b.txt''] (\<lambda>i. if i = 1 then fe_no_directory else fe_ok))
            init_world = Serving w'
     \<and> filter is_processing (trace w') =
         [Print (Processing 1 2 ''a.txt''), Print (Processing 2 2 ''b.txt'')]
     \<and> Print (Process_error ''a.txt'' OSError) \<in> set (trace w')"
proof -
  let ?en = "env_of [''a.txt'', ''b.txt''] (\<lambda>i. if i = 1 then fe_no_directory else fe_ok)"
  have g: "fst (get_file_list SOURCE_SPACE (listing_resp ?en) (print Starting init_world))
      = [''a.txt'', ''b.txt'']"
    by (simp add: listing_defs)
  from every_listed_file_attempted_once [OF g] obtain w' where
    m: "main ?en init_world = Serving w'"
    and a: "filter is_processing (trace w') =
         filter is_processing (trace init_world) @
         map (\<lambda>item. Print (Processing (fst item) (length [''a.txt'', ''b.txt'']) (snd item)))
           (enumerate 1 [''a.txt'', ''b.txt''])"
    and b: "\<forall>i<length [''a.txt'', ''b.txt'']. \<forall>e w0.
           fst (process_try (per_file ?en (Suc i)) (Suc i) (length [''a.txt'', ''b.txt''])
                  ([''a.txt'', ''b.txt''] ! i) w0) = Inl e
           \<longrightarrow> Print (Process_error ([''a.txt'', ''b.txt''] ! i) e) \<in> set (trace w')"
    by auto
  have r: "fst (process_try (per_file ?en (Suc 0)) (Suc 0) (length [''a.txt'', ''b.txt''])
                  ([''a.txt'', ''b.txt''] ! 0) init_world) = Inl OSError"
    by (simp add: env_of_def fe_no_directory_def fe_ok_def process_try_def download_file_def Let_def)
  have "0 < length [''a.txt'', ''b.txt'']" by simp
  with b r have c: "Print (Process_error ([''a.txt'', ''b.txt''] ! 0) OSError) \<in> set (trace w')"
    by blast
  have a': "filter is_processing (trace w') =
         [Print (Processing 1 2 ''a.txt''), Print (Processing 2 2 ''b.txt'')]"
    using a by (simp add: init_world_def)
  from m a' c show ?thesis by auto
qed

lemma pass_or_sleep_is_loop_event: "is_pass_or_sleep e \<Longrightarrow> is_loop_event e"
  by (erule is_pass_or_sleep.elims) simp_all

lemma process_file_pass_or_sleep:
  "filter is_pass_or_sleep (trace (process_file fe index len file_path w)) =
     filter is_pass_or_sleep (trace w) @
     Print (Processing index len file_path) #
     (if download_succeeds fe file_path \<and> index < len then [Sleep TIMEOUT_BETWEEN_UPLOADS] else [])"
proof -
  from process_file_refined [of is_pass_or_sleep fe index len file_path w,
      OF pass_or_sleep_is_loop_event]
  obtain ok where eq: "filter is_pass_or_sleep (trace (process_file fe index len file_path w)) =
     filter is_pass_or_sleep (trace w) @
     filter is_pass_or_sleep (Print (Processing index len file_path) #
       loop_tail (download_result fe file_path) ok index len file_path)"
    by blast
  show ?thesis
  proof (cases "download_result fe file_path")
    case (Inl e)
    then show ?thesis using eq by (simp add: loop_tail_def download_succeeds_def)
  next
    case (Inr res)
    then show ?thesis using eq by (cases res) (simp_all add: loop_tail_def download_succeeds_def)
  qed
qed

lemma main_loop_pass_or_sleep:
  "filter is_pass_or_sleep (trace (main_loop envs len items w)) =
     filter is_pass_or_sleep (trace w) @
     concat (map (\<lambda>item. Print (Processing (fst item) len (snd item)) #
        (if download_succeeds (envs (fst item)) (snd item) \<and> fst item < len
         then [Sleep TIMEOUT_BETWEEN_UPLOADS] else [])) items)"
  by (induction items arbitrary: w) (simp_all add: process_file_pass_or_sleep)

lemma enumerate_last:
  assumes "xs \<noteq> []"
  shows "enumerate 1 xs = enumerate 1 (butlast xs) @ [(length xs, last xs)]"
proof -
  have xs: "xs = butlast xs @ [last xs]" using assms by simp
  have len: "Suc (length (butlast xs)) = length xs" using assms by simp
  have "enumerate 1 xs = enumerate 1 (butlast xs @ [last xs])" using xs by simp
  also have "\<dots> = enumerate 1 (butlast xs) @ [(length xs, last xs)]"
    using len by (simp add: enumerate_append_eq)
  finally show ?thesis .
qed

lemma enumerate_butlast_less:
  assumes "xs \<noteq> []" and "item \<in> set (enumerate 1 (butlast xs))"
  shows "fst item < length xs"
proof -
  have "Suc (length (butlast xs)) = length xs" using assms(1) by simp
  then show ?thesis using assms(2) by (auto simp: in_set_enumerate_eq)
qed

text \<open>
  Claim C8. When the listing is not empty, the starts of the passes and the delays of a
  run occur in this order: for each file but the last, the start of its pass, then one
  \<^verbatim>\<open>time.sleep(TIMEOUT_BETWEEN_UPLOADS)\<close> when its download succeeded (before the next
  pass starts); then the start of the last pass, with no delay after it. So the delays
  are exactly one for each file but the last whose download succeeded.
\<close>

theorem delay_between_downloaded_files:
  assumes "fst (get_file_list SOURCE_SPACE (listing_resp en) (print Starting w)) = file_list"
    and "file_list \<noteq> []"
  shows "\<exists>w'. main en w = Serving w'
     \<and> filter is_pass_or_sleep (trace w') =
         filter is_pass_or_sleep (trace w) @
         concat (map (\<lambda>item. Print (Processing (fst item) (length file_list) (snd item)) #
            (if download_succeeds (per_file en (fst item)) (snd item)
             then [Sleep TIMEOUT_BETWEEN_UPLOADS] else []))
           (enumerate 1 (butlast file_list))) @
         [Print (Processing (length file_list) (length file_list) (last file_list))]
     \<and> filter is_sleep (trace w') =
         filter is_sleep (trace w) @
         map (\<lambda>item. Sleep TIMEOUT_BETWEEN_UPLOADS)
           (filter (\<lambda>item. download_succeeds (per_file en (fst item)) (snd item))
              (enumerate 1 (butlast file_list)))"
proof -
  let ?n = "length file_list"
  let ?pass = "\<lambda>item. Print (Processing (fst item) ?n (snd item)) #
        (if download_succeeds (per_file en (fst item)) (snd item) \<and> fst item < ?n
         then [Sleep TIMEOUT_BETWEEN_UPLOADS] else [])"
  let ?pass' = "\<lambda>item. Print (Processing (fst item) ?n (snd item)) #
        (if download_succeeds (per_file en (fst item)) (snd item)
         then [Sleep TIMEOUT_BETWEEN_UPLOADS] else [])"
  from main_reaches_serving [OF assms] obtain w' where m: "main en w = Serving w'" by blast
  from main_serving_trace [where P = is_pass_or_sleep, OF assms m pass_or_sleep_is_loop_event]
  have all: "filter is_pass_or_sleep (trace w') =
         filter is_pass_or_sleep (trace w) @ concat (map ?pass (enumerate 1 file_list))"
    by (auto simp: main_loop_pass_or_sleep)
  have mp: "map ?pass (enumerate 1 (butlast file_list)) = map ?pass' (enumerate 1 (butlast file_list))"
    using enumerate_butlast_less [OF assms(2)] by (intro map_cong) auto
  have e: "concat (map ?pass (enumerate 1 file_list)) =
      concat (map ?pass (enumerate 1 (butlast file_list))) @ ?pass (?n, last file_list)"
    by (subst enumerate_last [OF assms(2)])
       (simp only: map_append concat_append list.map concat.simps append_Nil2)
  have l: "?pass (?n, last file_list) = [Print (Processing ?n ?n (last file_list))]"
    by simp
  have "concat (map ?pass (enumerate 1 file_list)) =
      concat (map ?pass' (enumerate 1 (butlast file_list))) @
      [Print (Processing ?n ?n (last file_list))]"
    unfolding e l mp by (rule refl)
  with all have a: "filter is_pass_or_sleep (trace w') =
         filter is_pass_or_sleep (trace w) @
         concat (map ?pass' (enumerate 1 (butlast file_list))) @
         [Print (Processing ?n ?n (last file_list))]"
    by simp
  from main_serving_trace [where P = is_sleep, OF assms m sleep_is_loop_event]
  have "filter is_sleep (trace w') =
         filter is_sleep (trace w) @
         map (\<lambda>item. Sleep TIMEOUT_BETWEEN_UPLOADS)
           (filter (\<lambda>item. download_succeeds (per_file en (fst item)) (snd item)
                \<and> fst item < length file_list)
              (enumerate 1 file_list))"
    by (auto simp: main_loop_sleep)
  then have b: "filter is_sleep (trace w') =
         filter is_sleep (trace w) @
         map (\<lambda>item. Sleep TIMEOUT_BETWEEN_UPLOADS)
           (filter (\<lambda>item. download_succeeds (per_file en (fst item)) (snd item))
              (enumerate 1 (butlast file_list)))"
    using enumerate_butlast [OF assms(2),
      of "\<lambda>item. download_succeeds (per_file en (fst item)) (snd item)"]
    by simp
  from m a b show ?thesis by blast
qed

theorem delay_between_downloaded_files_witness:
  "\<exists>w'. main (env_of [''a.txt'', ''b.txt'', ''c.txt'']
              (\<lambda>i. if i = 2 then fe_no_download else fe_ok)) init_world = Serving w'
     \<and> filter is_pass_or_sleep (trace w') =
         [Print (Processing 1 3 ''a.txt''), Sleep 5,
          Print (Processing 2 3 ''b.txt''), Print (Processing 3 3 ''c.txt'')]
     \<and> filter is_sleep (trace w') = [Sleep 5]"
proof -
  let ?en = "env_of [''a.txt'', ''b.txt'', ''c.txt''] (\<lambda>i. if i = 2 then fe_no_download else fe_ok)"
  have g: "fst (get_file_list SOURCE_SPACE (listing_resp ?en) (print Starting init_world))
      = [''a.txt'', ''b.txt'', ''c.txt'']"
    by (simp add: listing_defs)
  have d1: "download_succeeds fe_ok ''a.txt''"
    by (simp add: download_succeeds_def download_result_def run_defs fe_ok_def)
  have d2: "\<not> download_succeeds fe_no_download ''b.txt''"
    by (simp add: download_succeeds_def download_result_def run_defs fe_ok_def fe_no_download_def)
  from delay_between_downloaded_files [OF g] obtain w' where
    m: "main ?en init_world = Serving w'"
    and a: "filter is_pass_or_sleep (trace w') =
         filter is_pass_or_sleep (trace init_world) @
         concat (map (\<lambda>item. Print (Processing (fst item) (length [''a.txt'', ''b.txt'', ''c.txt''])
              (snd item)) #
            (if download_succeeds (per_file ?en (fst item)) (snd item)
             then [Sleep TIMEOUT_BETWEEN_UPLOADS] else []))
           (enumerate 1 (butlast [''a.txt'', ''b.txt'', ''c.txt'']))) @
         [Print (Processing (length [''a.txt'', ''b.txt'', ''c.txt''])
            (length [''a.txt'', ''b.txt'', ''c.txt'']) (last [''a.txt'', ''b.txt'', ''c.txt'']))]"
    and b: "filter is_sleep (trace w') =
         filter is_sleep (trace init_world) @
         map (\<lambda>item. Sleep TIMEOUT_BETWEEN_UPLOADS)
           (filter (\<lambda>item. download_succeeds (per_file ?en (fst item)) (snd item))
              (enumerate 1 (butlast [''a.txt'', ''b.txt'', ''c.txt''])))"
    by auto
  have a': "filter is_pass_or_sleep (trace w') =
         [Print (Processing 1 3 ''a.txt''), Sleep 5,
          Print (Processing 2 3 ''b.txt''), Print (Processing 3 3 ''c.txt'')]"
    using a d1 d2 by (simp add: init_world_def env_of_def TIMEOUT_BETWEEN_UPLOADS_def)
  have b': "filter is_sleep (trace w') = [Sleep 5]"
    using b d1 d2 by (simp add: init_world_def env_of_def TIMEOUT_BETWEEN_UPLOADS_def)
  from m a' b' show ?thesis by blast
qed


text \<open>
  Claim C10. When the lister returns the empty list, \<^verbatim>\<open>main\<close> returns at line 209:
  no file is changed, the ledger is what it was (empty, at the start of the program),
  and no download, server-list or upload request is made.
\<close>

theorem empty_listing_ends_run:
  assumes "fst (get_file_list SOURCE_SPACE (listing_resp en) (print Starting w)) = []"
  shows "\<exists>w'. main en w = Returned w'
     \<and> files w' = files w
     \<and> successful_uploads w' = successful_uploads w
     \<and> filter is_transfer (trace w') = filter is_transfer (trace w)"
proof -
  obtain w1 where g: "get_file_list SOURCE_SPACE (listing_resp en) (print Starting w) = ([], w1)"
    using assms by (cases "get_file_list SOURCE_SPACE (listing_resp en) (print Starting w)") simp
  have "files w1 = files w" "successful_uploads w1 = successful_uploads w"
    "filter is_transfer (trace w1) = filter is_transfer (trace w)"
    using get_file_list_frame [of SOURCE_SPACE "listing_resp en" "print Starting w"] g
    by simp_all
  then show ?thesis using g by (simp add: main_def Let_def)
qed


theorem empty_listing_ends_run_witness:
  "\<exists>w'. main (env_of [''.gitattributes''] (\<lambda>i. fe_ok)) init_world = Returned w'
     \<and> files w' = files init_world
     \<and> successful_uploads w' = []
     \<and> filter is_transfer (trace w') = []"
proof -
  let ?en = "env_of [''.gitattributes''] (\<lambda>i. fe_ok)"
  have g: "fst (get_file_list SOURCE_SPACE (listing_resp ?en) (print Starting init_world)) = []"
    by (simp add: listing_defs)
  from empty_listing_ends_run [OF g] show ?thesis
    by (simp add: init_world_def)
qed


end
